theory Spec2Isabelle
  imports Main "HOL-Library.Word"
begin

unbundle bit_operations_syntax

section \<open>The lock-free bit set of \<^verbatim>\<open>atomic-bitset.h\<close>, executed sequentially\<close>

text \<open>
  The class template \<^verbatim>\<open>atomic_bitset<Capacity, BitsetWidth, BitsetWord, MaxTries, Index>\<close>
  is embedded as follows.
  \<^item> \<^verbatim>\<open>size_t\<close> and \<^verbatim>\<open>Index\<close> (its default) are 64-bit words; the C++ type \<^verbatim>\<open>int\<close> of the
    literals \<^verbatim>\<open>1 << offset\<close> and \<^verbatim>\<open>1 << BitsetWidth\<close> is a 32-bit word read with \<open>sint\<close>.
  \<^item> \<^verbatim>\<open>BitsetWord\<close> is the type parameter \<open>'w\<close>: a word of \<open>LENGTH('w)\<close> bits, so that
    \<^verbatim>\<open>8 * sizeof(BitsetWord)\<close> is \<open>LENGTH('w)\<close>.
  \<^item> The remaining template parameters are the fields of the record \<open>config\<close>. The retry
    counter \<^verbatim>\<open>tries\<close> only counts from 0 up to \<^verbatim>\<open>MaxTries\<close>, so both are naturals.
  \<^item> Bucket objects live in a free store: a pointer is \<open>None\<close> (\<^verbatim>\<open>nullptr\<close>) or an address, and
    the store is the list \<open>heap\<close>, whose entry is \<open>None\<close> once the object has been deleted.
  \<^item> Undefined behaviour of the C++ program (null or dangling dereference, array index out
    of range, shifting an \<^verbatim>\<open>int\<close> by 32 or more) is a value of type \<open>fault\<close>.
  \<^item> One thread runs at a time. A weak compare-exchange may still fail although the slot
    holds the expected value; whether it does is given by an oracle, a function from the
    value of \<^verbatim>\<open>tries\<close> at the call to a truth value.
  \<^item> \<^verbatim>\<open>1 << 31\<close> is the least \<^verbatim>\<open>int\<close>, as it is since C++14. The calls of \<^verbatim>\<open>printf\<close> in the
    retry branches only write to the standard output and are left out, and so are the
    memory orders, which make no difference to one thread.
\<close>

type_synonym size_t = "64 word"
type_synonym cint = "32 word"
type_synonym addr = nat

datatype status = success | failed | not_found | yes | no

datatype fault = NullDeref | UseAfterFree | OutOfBounds | ShiftTooWide

record config =
  Capacity :: nat
  BitsetWidth :: nat
  MaxTries :: nat

definition word_bits :: "'w::len itself \<Rightarrow> size_t" where
  "word_bits t = of_nat LENGTH('w)"

subsection \<open>Address decomposition\<close>

text \<open>
  \<^verbatim>\<open>relocate\<close> writes \<^verbatim>\<open>bucket\<close>, \<^verbatim>\<open>index\<close> and \<^verbatim>\<open>offset\<close> through references and returns the
  bucket id; the model returns all four. The mask \<^verbatim>\<open>(1 << BitsetWidth) - 1\<close> is computed in
  \<^verbatim>\<open>int\<close> and converted to \<^verbatim>\<open>size_t\<close> by sign extension.
\<close>

definition relocate :: "nat \<Rightarrow> size_t \<Rightarrow> size_t \<Rightarrow> size_t \<times> size_t \<times> size_t \<times> size_t" where
  "relocate W wbits pos =
     (let bucket = drop_bit W pos;
          sub = pos AND scast (push_bit W (1 :: cint) - 1);
          index = sub div wbits;
          offset = sub AND (wbits - 1)
      in (bucket, bucket, index, offset))"

text \<open>The number of words of a bucket, \<^verbatim>\<open>(1 << BitsetWidth) / (8 * sizeof(BitsetWord))\<close>.\<close>

definition nwords :: "nat \<Rightarrow> size_t \<Rightarrow> nat" where
  "nwords W wbits = unat ((scast (push_bit W (1 :: cint)) :: size_t) div wbits)"

subsection \<open>Bucket objects\<close>

record (overloaded) 'w BitSetElement =
  cardinality :: size_t
  words :: "'w word list"

text \<open>\<^verbatim>\<open>words[index].fetch_or(1 << offset)\<close>: the \<^verbatim>\<open>int\<close> is converted to the word type.\<close>

definition BitSetElement_set ::
  "'w::len BitSetElement \<Rightarrow> size_t \<Rightarrow> size_t \<Rightarrow> fault + 'w BitSetElement" where
  "BitSetElement_set e index offset =
     (if 32 \<le> unat offset then Inl ShiftTooWide
      else if length (words e) \<le> unat index then Inl OutOfBounds
      else Inr (e\<lparr>words := (words e)[unat index :=
                  (words e ! unat index) OR scast (push_bit (unat offset) (1 :: cint))]\<rparr>))"

text \<open>\<^verbatim>\<open>words[index].fetch_and(~(1 << offset))\<close>.\<close>

definition BitSetElement_reset ::
  "'w::len BitSetElement \<Rightarrow> size_t \<Rightarrow> size_t \<Rightarrow> fault + 'w BitSetElement" where
  "BitSetElement_reset e index offset =
     (if 32 \<le> unat offset then Inl ShiftTooWide
      else if length (words e) \<le> unat index then Inl OutOfBounds
      else Inr (e\<lparr>words := (words e)[unat index :=
                  (words e ! unat index) AND scast (NOT (push_bit (unat offset) (1 :: cint)))]\<rparr>))"

text \<open>
  \<^verbatim>\<open>return words[index].load() & (1 << offset)\<close>: the loaded word is zero-extended and the
  \<^verbatim>\<open>int\<close> sign-extended to the common type of the conjunction, whichever width that has, and
  the result is true when it is not zero.
\<close>

definition BitSetElement_test ::
  "'w::len BitSetElement \<Rightarrow> size_t \<Rightarrow> size_t \<Rightarrow> fault + bool" where
  "BitSetElement_test e index offset =
     (if 32 \<le> unat offset then Inl ShiftTooWide
      else if length (words e) \<le> unat index then Inl OutOfBounds
      else Inr ((uint (words e ! unat index) AND sint (push_bit (unat offset) (1 :: cint))) \<noteq> 0))"

text \<open>The constructor \<^verbatim>\<open>BitSetElement(cardinality, index, offset)\<close>.\<close>

definition BitSetElement_new ::
  "nat \<Rightarrow> size_t \<Rightarrow> size_t \<Rightarrow> size_t \<Rightarrow> fault + 'w::len BitSetElement" where
  "BitSetElement_new W cardinality0 index offset =
     (let e = \<lparr>cardinality = cardinality0,
               words = replicate (nwords W (word_bits TYPE('w))) 0\<rparr>
      in if offset \<le> word_bits TYPE('w) - 1 then BitSetElement_set e index offset else Inr e)"

subsection \<open>The slot array and the free store\<close>

record (overloaded) 'w state =
  elements :: "addr option list"
  heap :: "'w BitSetElement option list"

text \<open>The constructor \<^verbatim>\<open>atomic_bitset()\<close>: every slot is \<^verbatim>\<open>nullptr\<close>.\<close>

definition atomic_bitset :: "config \<Rightarrow> 'w state" where
  "atomic_bitset c = \<lparr>elements = replicate (Capacity c) None, heap = []\<rparr>"

definition deref :: "'w state \<Rightarrow> addr option \<Rightarrow> fault + 'w BitSetElement" where
  "deref s p =
     (case p of
        None \<Rightarrow> Inl NullDeref
      | Some a \<Rightarrow>
          (if a < length (heap s)
           then (case heap s ! a of None \<Rightarrow> Inl UseAfterFree | Some e \<Rightarrow> Inr e)
           else Inl UseAfterFree))"

definition put :: "'w state \<Rightarrow> addr \<Rightarrow> 'w BitSetElement \<Rightarrow> 'w state" where
  "put s a e = s\<lparr>heap := (heap s)[a := Some e]\<rparr>"

text \<open>\<^verbatim>\<open>new\<close> returns an address that was never used; \<^verbatim>\<open>delete\<close> ends the object's life.\<close>

definition new_elt :: "'w state \<Rightarrow> 'w BitSetElement \<Rightarrow> addr \<times> 'w state" where
  "new_elt s e = (length (heap s), s\<lparr>heap := heap s @ [Some e]\<rparr>)"

definition delete_elt :: "'w state \<Rightarrow> addr \<Rightarrow> 'w state" where
  "delete_elt s a = s\<lparr>heap := (heap s)[a := None]\<rparr>"

text \<open>\<^verbatim>\<open>p->set(index, offset)\<close>, \<^verbatim>\<open>p->reset(index, offset)\<close> and \<^verbatim>\<open>p->test(index, offset)\<close>.\<close>

definition elt_set :: "'w::len state \<Rightarrow> addr option \<Rightarrow> size_t \<Rightarrow> size_t \<Rightarrow> fault + 'w state" where
  "elt_set s p index offset =
     (case deref s p of
        Inl f \<Rightarrow> Inl f
      | Inr e \<Rightarrow>
          (case BitSetElement_set e index offset of
             Inl f \<Rightarrow> Inl f
           | Inr e' \<Rightarrow> Inr (put s (the p) e')))"

definition elt_reset :: "'w::len state \<Rightarrow> addr option \<Rightarrow> size_t \<Rightarrow> size_t \<Rightarrow> fault + 'w state" where
  "elt_reset s p index offset =
     (case deref s p of
        Inl f \<Rightarrow> Inl f
      | Inr e \<Rightarrow>
          (case BitSetElement_reset e index offset of
             Inl f \<Rightarrow> Inl f
           | Inr e' \<Rightarrow> Inr (put s (the p) e')))"

definition elt_test :: "'w::len state \<Rightarrow> addr option \<Rightarrow> size_t \<Rightarrow> size_t \<Rightarrow> fault + bool" where
  "elt_test s p index offset =
     (case deref s p of
        Inl f \<Rightarrow> Inl f
      | Inr e \<Rightarrow> BitSetElement_test e index offset)"

text \<open>
  \<^verbatim>\<open>slot.compare_exchange_weak(expected, desired)\<close> on a slot holding \<open>cur\<close>: the result is
  the truth value returned, the new content of the slot and the new value of \<^verbatim>\<open>expected\<close>.
\<close>

definition compare_exchange_weak ::
  "bool \<Rightarrow> addr option \<Rightarrow> addr option \<Rightarrow> addr option \<Rightarrow> bool \<times> addr option \<times> addr option" where
  "compare_exchange_weak spurious cur expected desired =
     (if cur = expected \<and> \<not> spurious then (True, desired, expected) else (False, cur, cur))"

subsection \<open>The public operations\<close>

text \<open>
  The loop of \<^verbatim>\<open>set\<close>. Its arguments are the oracle for the compare-exchange, the local
  variables of the function (\<^verbatim>\<open>cardinality\<close>, written \<open>cardinality0\<close> to tell it from the
  field, \<^verbatim>\<open>tries\<close>, \<^verbatim>\<open>bucket\<close>, \<^verbatim>\<open>index\<close>, \<^verbatim>\<open>offset\<close>, \<^verbatim>\<open>newelt\<close>) and the state. When the
  compare-exchange fails, \<^verbatim>\<open>elt\<close> holds what the slot held, and the code reads
  \<^verbatim>\<open>elt->cardinality\<close>.
\<close>

function set_loop ::
  "config \<Rightarrow> (nat \<Rightarrow> bool) \<Rightarrow> size_t \<Rightarrow> nat \<Rightarrow> size_t \<Rightarrow> size_t \<Rightarrow> size_t \<Rightarrow> addr option \<Rightarrow>
   'w::len state \<Rightarrow> fault + (status \<times> 'w state)" where
  "set_loop c spur cardinality0 tries bucket index offset newelt s =
     (if tries < MaxTries c then
        (if length (elements s) \<le> unat bucket then Inl OutOfBounds
         else
           (case elements s ! unat bucket of
              None \<Rightarrow>
                (case (case newelt of
                         None \<Rightarrow>
                           (case BitSetElement_new (BitsetWidth c) cardinality0 index offset of
                              Inl f \<Rightarrow> Inl f
                            | Inr e \<Rightarrow> Inr (new_elt s e))
                       | Some p \<Rightarrow>
                           (case elt_set s (Some p) index offset of
                              Inl f \<Rightarrow> Inl f
                            | Inr s1 \<Rightarrow> Inr (p, s1))) of
                   Inl f \<Rightarrow> Inl f
                 | Inr (p, s1) \<Rightarrow>
                     (case compare_exchange_weak (spur tries) (elements s1 ! unat bucket)
                             None (Some p) of
                        (ok, slot, elt) \<Rightarrow>
                          if ok then
                            Inr (success, s1\<lparr>elements := (elements s1)[unat bucket := slot]\<rparr>)
                          else
                            (case deref s1 elt of
                               Inl f \<Rightarrow> Inl f
                             | Inr e \<Rightarrow>
                                 if cardinality e = cardinality0 then
                                   (case elt_set s1 elt index offset of
                                      Inl f \<Rightarrow> Inl f
                                    | Inr s2 \<Rightarrow> Inr (success, s2))
                                 else
                                   (case elt_reset s1 (Some p) index offset of
                                      Inl f \<Rightarrow> Inl f
                                    | Inr s2 \<Rightarrow>
                                        (case relocate (BitsetWidth c) (word_bits TYPE('w))
                                                (push_bit (BitsetWidth c) bucket) of
                                           (r, bucket', index', offset') \<Rightarrow>
                                             set_loop c spur cardinality0 (tries + 1)
                                               bucket' index' offset' (Some p) s2)))))
            | Some a \<Rightarrow>
                (case deref s (Some a) of
                   Inl f \<Rightarrow> Inl f
                 | Inr e \<Rightarrow>
                     if cardinality e = cardinality0 then
                       (case elt_set s (Some a) index offset of
                          Inl f \<Rightarrow> Inl f
                        | Inr s1 \<Rightarrow> Inr (success, s1))
                     else
                       (case relocate (BitsetWidth c) (word_bits TYPE('w))
                               (push_bit (BitsetWidth c) bucket) of
                          (r, bucket', index', offset') \<Rightarrow>
                            set_loop c spur cardinality0 (tries + 1)
                              bucket' index' offset' newelt s))))
      else Inr (failed, (case newelt of None \<Rightarrow> s | Some p \<Rightarrow> delete_elt s p)))"
  by pat_completeness auto
termination
  by (relation "measure (\<lambda>(c, spur, cardinality0, tries, rest). MaxTries c - tries)") auto

text \<open>\<^verbatim>\<open>status set(Index pos)\<close>.\<close>

definition atomic_bitset_set ::
  "config \<Rightarrow> (nat \<Rightarrow> bool) \<Rightarrow> size_t \<Rightarrow> 'w::len state \<Rightarrow> fault + (status \<times> 'w state)" where
  "atomic_bitset_set c spur pos s =
     (case relocate (BitsetWidth c) (word_bits TYPE('w)) pos of
        (cardinality0, bucket, index, offset) \<Rightarrow>
          set_loop c spur cardinality0 0 bucket index offset None s)"

text \<open>The loop of \<^verbatim>\<open>reset(Index pos)\<close>, and the function.\<close>

function reset_loop ::
  "config \<Rightarrow> size_t \<Rightarrow> nat \<Rightarrow> size_t \<Rightarrow> size_t \<Rightarrow> size_t \<Rightarrow> 'w::len state \<Rightarrow>
   fault + (status \<times> 'w state)" where
  "reset_loop c cardinality0 tries bucket index offset s =
     (if tries < MaxTries c then
        (if length (elements s) \<le> unat bucket then Inl OutOfBounds
         else
           (case elements s ! unat bucket of
              None \<Rightarrow> Inr (success, s)
            | Some a \<Rightarrow>
                (case deref s (Some a) of
                   Inl f \<Rightarrow> Inl f
                 | Inr e \<Rightarrow>
                     if cardinality e = cardinality0 then
                       (case elt_reset s (Some a) index offset of
                          Inl f \<Rightarrow> Inl f
                        | Inr s1 \<Rightarrow> Inr (success, s1))
                     else
                       (case relocate (BitsetWidth c) (word_bits TYPE('w))
                               (push_bit (BitsetWidth c) bucket) of
                          (r, bucket', index', offset') \<Rightarrow>
                            reset_loop c cardinality0 (tries + 1) bucket' index' offset' s))))
      else Inr (not_found, s))"
  by pat_completeness auto
termination
  by (relation "measure (\<lambda>(c, cardinality0, tries, rest). MaxTries c - tries)") auto

definition atomic_bitset_reset ::
  "config \<Rightarrow> size_t \<Rightarrow> 'w::len state \<Rightarrow> fault + (status \<times> 'w state)" where
  "atomic_bitset_reset c pos s =
     (case relocate (BitsetWidth c) (word_bits TYPE('w)) pos of
        (cardinality0, bucket, index, offset) \<Rightarrow>
          reset_loop c cardinality0 0 bucket index offset s)"

text \<open>The loop of \<^verbatim>\<open>test(Index pos) const\<close>, and the function. It does not change the state.\<close>

function test_loop ::
  "config \<Rightarrow> size_t \<Rightarrow> nat \<Rightarrow> size_t \<Rightarrow> size_t \<Rightarrow> size_t \<Rightarrow> 'w::len state \<Rightarrow> fault + status" where
  "test_loop c cardinality0 tries bucket index offset s =
     (if tries < MaxTries c then
        (if length (elements s) \<le> unat bucket then Inl OutOfBounds
         else
           (case elements s ! unat bucket of
              None \<Rightarrow> Inr no
            | Some a \<Rightarrow>
                (case deref s (Some a) of
                   Inl f \<Rightarrow> Inl f
                 | Inr e \<Rightarrow>
                     if cardinality e = cardinality0 then
                       (case elt_test s (Some a) index offset of
                          Inl f \<Rightarrow> Inl f
                        | Inr b \<Rightarrow> Inr (if b then yes else no))
                     else
                       (case relocate (BitsetWidth c) (word_bits TYPE('w))
                               (push_bit (BitsetWidth c) bucket) of
                          (r, bucket', index', offset') \<Rightarrow>
                            test_loop c cardinality0 (tries + 1) bucket' index' offset' s))))
      else Inr not_found)"
  by pat_completeness auto
termination
  by (relation "measure (\<lambda>(c, cardinality0, tries, rest). MaxTries c - tries)") auto

definition atomic_bitset_test :: "config \<Rightarrow> size_t \<Rightarrow> 'w::len state \<Rightarrow> fault + status" where
  "atomic_bitset_test c pos s =
     (case relocate (BitsetWidth c) (word_bits TYPE('w)) pos of
        (cardinality0, bucket, index, offset) \<Rightarrow>
          test_loop c cardinality0 0 bucket index offset s)"

text \<open>
  The bulk \<^verbatim>\<open>reset()\<close>: the inner loop stores 0 into the words \<open>j\<close>, \<open>j + 1\<close>, ... of one
  bucket object, the outer loop visits the slots \<open>i\<close>, \<open>i + 1\<close>, ... below \<^verbatim>\<open>Capacity\<close>.
\<close>

function clear_words :: "nat \<Rightarrow> nat \<Rightarrow> 'w::len BitSetElement \<Rightarrow> fault + 'w BitSetElement" where
  "clear_words n j e =
     (if j < n then
        (if length (words e) \<le> j then Inl OutOfBounds
         else clear_words n (j + 1) (e\<lparr>words := (words e)[j := 0]\<rparr>))
      else Inr e)"
  by pat_completeness auto
termination
  by (relation "measure (\<lambda>(n, j, e). n - j)") auto

function reset_all_loop :: "config \<Rightarrow> nat \<Rightarrow> 'w::len state \<Rightarrow> fault + 'w state" where
  "reset_all_loop c i s =
     (if i < Capacity c then
        (if length (elements s) \<le> i then Inl OutOfBounds
         else
           (case elements s ! i of
              None \<Rightarrow> reset_all_loop c (i + 1) s
            | Some a \<Rightarrow>
                (case deref s (Some a) of
                   Inl f \<Rightarrow> Inl f
                 | Inr e \<Rightarrow>
                     (case clear_words (nwords (BitsetWidth c) (word_bits TYPE('w))) 0 e of
                        Inl f \<Rightarrow> Inl f
                      | Inr e' \<Rightarrow> reset_all_loop c (i + 1) (put s a e')))))
      else Inr s)"
  by pat_completeness auto
termination
  by (relation "measure (\<lambda>(c, i, s). Capacity c - i)") auto

definition atomic_bitset_reset_all :: "config \<Rightarrow> 'w::len state \<Rightarrow> fault + (status \<times> 'w state)" where
  "atomic_bitset_reset_all c s =
     (case reset_all_loop c 0 s of Inl f \<Rightarrow> Inl f | Inr s' \<Rightarrow> Inr (success, s'))"

declare set_loop.simps [simp del] reset_loop.simps [simp del] test_loop.simps [simp del]
  clear_words.simps [simp del] reset_all_loop.simps [simp del]

subsection \<open>Vocabulary of the properties\<close>

text \<open>
  The configurations the properties are stated for: the word type has 8, 16 or 32 bits
  (so that \<^verbatim>\<open>1 << offset\<close> is a defined \<^verbatim>\<open>int\<close> and converts to the word type without
  change), a bucket holds at least one word, \<^verbatim>\<open>1 << BitsetWidth\<close> is a positive \<^verbatim>\<open>int\<close>, and
  the loops run at least once.
\<close>

definition wf_config :: "config \<Rightarrow> 'w::len itself \<Rightarrow> bool" where
  "wf_config c t =
     (LENGTH('w) \<in> {8, 16, 32} \<and> LENGTH('w) \<le> 2 ^ BitsetWidth c \<and> BitsetWidth c \<le> 30 \<and>
      0 < MaxTries c)"

text \<open>A valid position: \<open>pos < Capacity \<times> 2 ^ BitsetWidth\<close>.\<close>

definition in_range :: "config \<Rightarrow> size_t \<Rightarrow> bool" where
  "in_range c pos = (unat pos < Capacity c * 2 ^ BitsetWidth c)"

text \<open>
  The invariant of the structure: the array has \<^verbatim>\<open>Capacity\<close> slots, and the pointer of a
  non-empty slot \<open>i\<close> leads to a live object with tag \<open>i\<close> and a full array of words.
\<close>

definition slot_ok :: "config \<Rightarrow> 'w::len state \<Rightarrow> nat \<Rightarrow> bool" where
  "slot_ok c s i =
     (case elements s ! i of
        None \<Rightarrow> True
      | Some a \<Rightarrow>
          (case deref s (Some a) of
             Inl f \<Rightarrow> False
           | Inr e \<Rightarrow> unat (cardinality e) = i \<and>
                      length (words e) = nwords (BitsetWidth c) (word_bits TYPE('w))))"

definition wf_state :: "config \<Rightarrow> 'w::len state \<Rightarrow> bool" where
  "wf_state c s = (length (elements s) = Capacity c \<and> (\<forall>i<Capacity c. slot_ok c s i))"

text \<open>The words of the bucket installed in slot \<open>j\<close>, and the value of the bit at a position.\<close>

definition bucket_words :: "'w::len state \<Rightarrow> nat \<Rightarrow> 'w word list option" where
  "bucket_words s j =
     (case elements s ! j of
        None \<Rightarrow> None
      | Some a \<Rightarrow> (case heap s ! a of None \<Rightarrow> None | Some e \<Rightarrow> Some (words e)))"

definition bit_at :: "config \<Rightarrow> 'w::len state \<Rightarrow> size_t \<Rightarrow> bool" where
  "bit_at c s pos =
     (case relocate (BitsetWidth c) (word_bits TYPE('w)) pos of
        (r, b, i, off) \<Rightarrow>
          (case bucket_words s (unat b) of
             None \<Rightarrow> False
           | Some ws \<Rightarrow> bit (ws ! unat i) (unat off)))"

text \<open>
  Calls of the public operations, one after the other on one instance. A call of
  \<^verbatim>\<open>set\<close> comes with the oracle of its compare-exchange.
\<close>

datatype op = Set "nat \<Rightarrow> bool" size_t | Reset size_t | ResetAll | Test size_t

fun apply_op :: "config \<Rightarrow> op \<Rightarrow> 'w::len state \<Rightarrow> fault + (status \<times> 'w state)" where
  "apply_op c (Set spur pos) s = atomic_bitset_set c spur pos s"
| "apply_op c (Reset pos) s = atomic_bitset_reset c pos s"
| "apply_op c ResetAll s = atomic_bitset_reset_all c s"
| "apply_op c (Test pos) s =
     (case atomic_bitset_test c pos s of Inl f \<Rightarrow> Inl f | Inr st \<Rightarrow> Inr (st, s))"

fun run :: "config \<Rightarrow> op list \<Rightarrow> 'w::len state \<Rightarrow> fault + 'w state" where
  "run c [] s = Inr s"
| "run c (x # xs) s =
     (case apply_op c x s of Inl f \<Rightarrow> Inl f | Inr (st, s') \<Rightarrow> run c xs s')"

fun op_in_range :: "config \<Rightarrow> op \<Rightarrow> bool" where
  "op_in_range c (Set spur pos) = in_range c pos"
| "op_in_range c (Reset pos) = in_range c pos"
| "op_in_range c ResetAll = True"
| "op_in_range c (Test pos) = in_range c pos"

text \<open>A call that is neither \<^verbatim>\<open>reset(pos)\<close> nor the bulk \<^verbatim>\<open>reset()\<close>.\<close>

fun keeps :: "size_t \<Rightarrow> op \<Rightarrow> bool" where
  "keeps pos (Set spur q) = True"
| "keeps pos (Reset q) = (q \<noteq> pos)"
| "keeps pos ResetAll = False"
| "keeps pos (Test q) = True"

text \<open>A call whose compare-exchange, if it makes one, does not fail spuriously.\<close>

fun steady :: "op \<Rightarrow> bool" where
  "steady (Set spur pos) = (\<not> spur 0)"
| "steady (Reset pos) = True"
| "steady ResetAll = True"
| "steady (Test pos) = True"

text \<open>
  The state \<open>s\<close> is reached from the constructor by the calls \<open>ops\<close>, all on valid
  positions and all returning.
\<close>

definition reachable :: "config \<Rightarrow> op list \<Rightarrow> 'w::len state \<Rightarrow> bool" where
  "reachable c ops s = (list_all (op_in_range c) ops \<and> run c ops (atomic_bitset c) = Inr s)"

section \<open>Words and addresses\<close>

lemma scast_bit1:
  assumes "n < LENGTH('w::len)" "LENGTH('w) \<le> 32"
  shows "(scast (2 ^ n :: cint) :: 'w word) = 2 ^ n"
  using assms by (intro bit_word_eqI) (auto simp: bit_simps bit_exp_iff)

lemma scast_not_bit1:
  assumes "n < LENGTH('w::len)" "LENGTH('w) \<le> 32"
  shows "(scast (NOT (2 ^ n :: cint)) :: 'w word) = NOT (2 ^ n)"
  using assms by (intro bit_word_eqI) (auto simp: bit_simps bit_exp_iff)

lemma test_bit1:
  fixes w :: "'w::len word"
  assumes "n < LENGTH('w)" "LENGTH('w) \<le> 32"
  shows "(uint w AND sint ((2 ^ n :: cint)) \<noteq> 0) = bit w n"
proof -
  have "bit (uint w AND sint ((2 ^ n :: cint))) m = (m = n \<and> bit w n)" for m
  proof (cases "bit w m")
    case True
    then have "m < LENGTH('w)" by (rule bit_imp_le_length)
    with assms True show ?thesis by (cases "m = 31") (auto simp: bit_simps bit_exp_iff min_def)
  next
    case False
    with assms show ?thesis by (auto simp: bit_simps bit_exp_iff min_def)
  qed
  then have "(uint w AND sint ((2 ^ n :: cint)) = 0) = (\<not> bit w n)"
    by (auto simp: bit_eq_iff)
  then show ?thesis by simp
qed

lemma relocate_unat:
  assumes "W \<le> 30" "k \<le> W" 
  shows "relocate W (2 ^ k) pos = (drop_bit W pos, drop_bit W pos, drop_bit k (take_bit W pos), take_bit k pos)"
proof -
  have m: "(scast (2 ^ W - 1 :: cint) :: size_t) = mask W"
    using assms by (intro bit_word_eqI) (auto simp: bit_simps simp flip: mask_eq_exp_minus_1)
  have d: "take_bit W pos div 2 ^ k = drop_bit k (take_bit W pos)"
    by (simp add: drop_bit_eq_div)
  have o: "take_bit W pos AND (2 ^ k - 1) = take_bit k pos"
    using assms by (simp flip: mask_eq_exp_minus_1 take_bit_eq_mask add: min_def)
  show ?thesis
    by (simp add: relocate_def Let_def m d o flip: take_bit_eq_mask)
qed

lemma bit_or1: "n < LENGTH('w::len) \<Longrightarrow> bit ((w :: 'w word) OR 2 ^ n) m = (bit w m \<or> m = n)"
  by (auto simp: bit_simps bit_exp_iff dest: bit_imp_le_length)
lemma bit_andnot1: "bit ((w :: 'w::len word) AND NOT (2 ^ n)) m = (bit w m \<and> m \<noteq> n)"
  by (auto simp: bit_simps bit_exp_iff dest: bit_imp_le_length)

lemma relocate_inj:
  assumes "W \<le> 30" "k \<le> W" "relocate W (2 ^ k) p = relocate W (2 ^ k) q"
  shows "p = q"
proof -
  from assms have a: "drop_bit W p = drop_bit W q" and b: "drop_bit k (take_bit W p) = drop_bit k (take_bit W q)"
    and c: "take_bit k p = take_bit k q"
    by (simp_all add: relocate_unat)
  show ?thesis
  proof (rule bit_word_eqI)
    fix n assume "n < LENGTH(64)"
    show "bit p n = bit q n"
    proof (cases "n < k")
      case True
      have "bit (take_bit k p) n = bit (take_bit k q) n" by (simp only: c)
      with True show ?thesis by (simp add: bit_simps)
    next
      case False
      show ?thesis
      proof (cases "n < W")
        case True
        have "bit (drop_bit k (take_bit W p)) (n - k) = bit (drop_bit k (take_bit W q)) (n - k)" by (simp only: b)
        with True False show ?thesis by (simp add: bit_simps)
      next
        case False
        have "bit (drop_bit W p) (n - W) = bit (drop_bit W q) (n - W)" by (simp only: a)
        with False show ?thesis by (simp add: bit_simps)
      qed
    qed
  qed
qed

lemma unat_2p64: "n < 64 \<Longrightarrow> unat (2 ^ n :: size_t) = 2 ^ n"
proof -
  assume a: "n < 64"
  then have b: "(2::nat) ^ n < 2 ^ 64" using power_strict_increasing[of n 64 "2::nat"] by simp
  have "unat (2 ^ n :: size_t) = unat (of_nat (2 ^ n) :: size_t)" by simp
  also have "\<dots> = 2 ^ n" using b
    by (simp only: unat_of_nat) simp
  finally show ?thesis .
qed
lemma wf_config_exp:
  assumes "wf_config c TYPE('w::len)"
  obtains k where "LENGTH('w) = 2 ^ k" "k \<le> 5" "k \<le> BitsetWidth c" "word_bits TYPE('w) = 2 ^ k"
proof -
  from assms consider "LENGTH('w) = 2 ^ 3" | "LENGTH('w) = 2 ^ 4" | "LENGTH('w) = 2 ^ 5"
    by (auto simp: wf_config_def)
  then obtain k :: nat where k: "LENGTH('w) = 2 ^ k" "k \<le> 5"
    by (metis numeral_le_iff semiring_norm(68,69,72,73) le_refl)
  moreover from assms k have "(2::nat) ^ k \<le> 2 ^ BitsetWidth c"
    by (simp add: wf_config_def)
  then have "k \<le> BitsetWidth c" by simp
  moreover have "word_bits TYPE('w) = 2 ^ k"
    by (simp add: word_bits_def k)
  ultimately show thesis by (rule that)
qed

lemma nwords_exp:
  assumes "W \<le> 30" "k \<le> W"
  shows "nwords W (2 ^ k) = 2 ^ (W - k)"
proof -
  have "(scast (2 ^ W :: cint) :: size_t) = 2 ^ W"
    using assms by (intro bit_word_eqI) (auto simp: bit_simps)
  moreover have "(2 ^ W :: size_t) div 2 ^ k = 2 ^ (W - k)"
    using assms  by (simp flip: drop_bit_eq_div add: drop_bit_exp_eq)
  moreover have "unat (2 ^ (W - k) :: size_t) = 2 ^ (W - k)"
    using assms by (simp add: unat_2p64)
  ultimately show ?thesis
    by (simp add: nwords_def)
qed

lemma relocate_bounds:
  assumes "W \<le> 30" "k \<le> W" "k \<le> 5" "relocate W (2 ^ k) pos = (r, b, i, off)"
  shows "r = b" "unat b = unat pos div 2 ^ W" "unat i < nwords W (2 ^ k)" "unat off < 2 ^ k"
proof -
  from assms have b: "b = drop_bit W pos" and r: "r = drop_bit W pos"
    and i: "i = drop_bit k (take_bit W pos)" and o: "off = take_bit k pos"
    by (auto simp: relocate_unat)
  show "r = b" by (simp add: r b)
  show "unat b = unat pos div 2 ^ W"
    by (simp only: b unat_drop_bit_eq) (simp add: drop_bit_eq_div)
  have "unat off = take_bit k (unat pos)"
    by (simp add: o unsigned_take_bit_eq)
  then show "unat off < 2 ^ k" by simp
  have "unat i = drop_bit k (take_bit W (unat pos))"
    by (simp add: i unat_drop_bit_eq unsigned_take_bit_eq)
  also have "\<dots> = take_bit (W - k) (drop_bit k (unat pos))"
    using assms by (simp add: take_bit_drop_bit)
  also have "\<dots> < 2 ^ (W - k)" by simp
  finally show "unat i < nwords W (2 ^ k)" using assms by (simp add: nwords_exp)
qed

lemma locate:
  assumes "wf_config c TYPE('w::len)" "in_range c pos"
  obtains b i off where
    "relocate (BitsetWidth c) (word_bits TYPE('w)) pos = (b, b, i, off)"
    "unat b < Capacity c" "unat i < nwords (BitsetWidth c) (word_bits TYPE('w))"
    "unat off < LENGTH('w)" "unat off < 32" "off \<le> word_bits TYPE('w) - 1"
proof -
  from assms(1) obtain k where k: "LENGTH('w) = 2 ^ k" "k \<le> 5" "k \<le> BitsetWidth c"
    "word_bits TYPE('w) = 2 ^ k"
    by (rule wf_config_exp)
  from assms(1) have W: "BitsetWidth c \<le> 30" by (simp add: wf_config_def)
  obtain r b i off where r: "relocate (BitsetWidth c) (2 ^ k) pos = (r, b, i, off)"
    by (metis prod_cases4)
  note bs = relocate_bounds [OF W k(3) k(2) r]
  have "unat b < Capacity c"
    using assms(2) by (simp add: bs in_range_def div_less_iff_less_mult)
  moreover have "unat off < LENGTH('w)" using bs by (simp add: k)
  moreover from k have "LENGTH('w) \<le> 32"
    using power_increasing [of k 5 "2::nat"] by simp
  moreover have "off \<le> word_bits TYPE('w) - 1"
  proof -
    from r W k(3) have "off = take_bit k pos" by (simp add: relocate_unat)
    then have "off = pos AND mask k" by (simp add: take_bit_eq_mask)
    moreover have "pos AND mask k \<le> mask k" by (rule word_and_le1)
    ultimately show ?thesis by (simp add: k mask_eq_exp_minus_1)
  qed
  ultimately show thesis
    using that [of b i off] r bs by (simp add: k)
qed

lemma wf_slotD:
  assumes "wf_state c (s :: 'w::len state)" "i < Capacity c" "elements s ! i = Some a"
  obtains e where "deref s (Some a) = Inr e" "a < length (heap s)" "heap s ! a = Some e"
    "unat (cardinality e) = i" "length (words e) = nwords (BitsetWidth c) (word_bits TYPE('w))"
proof -
  from assms have "slot_ok c s i" by (simp add: wf_state_def)
  with assms(3) show thesis
    by (auto simp: slot_ok_def deref_def split: sum.splits option.splits if_splits intro: that)
qed

lemma tag_eq: "unat (x :: size_t) = unat y \<Longrightarrow> x = y"
  by (simp add: word_unat_eq_iff)

lemma BitSetElement_test_eq:
  assumes "unat off < LENGTH('w::len)" "LENGTH('w) \<le> 32" "unat i < length (words e)"
  shows "BitSetElement_test (e :: 'w BitSetElement) i off = Inr (bit (words e ! unat i) (unat off))"
  using assms by (simp add: BitSetElement_test_def test_bit1)

lemma BitSetElement_set_eq:
  assumes "unat off < LENGTH('w::len)" "LENGTH('w) \<le> 32" "unat i < length (words e)"
  shows "BitSetElement_set (e :: 'w BitSetElement) i off =
    Inr (e\<lparr>words := (words e)[unat i := words e ! unat i OR 2 ^ unat off]\<rparr>)"
  using assms by (simp add: BitSetElement_set_def scast_bit1)

lemma BitSetElement_reset_eq:
  assumes "unat off < LENGTH('w::len)" "LENGTH('w) \<le> 32" "unat i < length (words e)"
  shows "BitSetElement_reset (e :: 'w BitSetElement) i off =
    Inr (e\<lparr>words := (words e)[unat i := words e ! unat i AND NOT (2 ^ unat off)]\<rparr>)"
  using assms by (simp add: BitSetElement_reset_def scast_not_bit1)

lemma test_eq:
  assumes "wf_config c TYPE('w::len)" "wf_state c (s :: 'w state)" "in_range c pos"
  shows "atomic_bitset_test c pos s = Inr (if bit_at c s pos then yes else no)"
proof -
  from assms(1,3) obtain b i off where
    r: "relocate (BitsetWidth c) (word_bits TYPE('w)) pos = (b, b, i, off)"
    and b: "unat b < Capacity c" and i: "unat i < nwords (BitsetWidth c) (word_bits TYPE('w))"
    and off: "unat off < LENGTH('w)" "unat off < 32"
    by (rule locate)
  from assms(1) have m: "0 < MaxTries c" and l: "LENGTH('w) \<le> 32" by (auto simp: wf_config_def)
  from assms(2) have len: "length (elements s) = Capacity c" by (simp add: wf_state_def)
  show ?thesis
  proof (cases "elements s ! unat b")
    case None
    then show ?thesis using m b len
      by (simp add: atomic_bitset_test_def r bit_at_def bucket_words_def
          test_loop.simps [of c b 0])
  next
    case (Some a)
    with assms(2) b obtain e where e: "deref s (Some a) = Inr e" "heap s ! a = Some e"
      "unat (cardinality e) = unat b"
      "length (words e) = nwords (BitsetWidth c) (word_bits TYPE('w))"
      by (rule wf_slotD)
    from e(3) have "cardinality e = b" by (rule tag_eq)
    then show ?thesis using m b len Some e i off l
      by (simp add: atomic_bitset_test_def r bit_at_def bucket_words_def
          test_loop.simps [of c b 0] elt_test_def BitSetElement_test_eq)
  qed
qed

lemma reset_empty:
  assumes "0 < MaxTries c" "unat (drop_bit (BitsetWidth c) pos) < length (elements s)"
    "elements s ! unat (drop_bit (BitsetWidth c) pos) = None"
  shows "atomic_bitset_reset c pos s = Inr (success, s)"
  using assms
  by (simp add: atomic_bitset_reset_def relocate_def Let_def reset_loop.simps [of c _ 0])

lemma reset_full:
  assumes "wf_config c TYPE('w::len)" "wf_state c (s :: 'w state)" 
    "relocate (BitsetWidth c) (word_bits TYPE('w)) pos = (b, b, i, off)"
    "unat b < Capacity c" "unat i < nwords (BitsetWidth c) (word_bits TYPE('w))"
    "unat off < LENGTH('w)"
    "elements s ! unat b = Some a" "heap s ! a = Some e"
  shows "atomic_bitset_reset c pos s = Inr (success, put s a 
     (e\<lparr>words := (words e)[unat i := words e ! unat i AND NOT (2 ^ unat off)]\<rparr>))"
proof -
  from assms(1) have m: "0 < MaxTries c" and l: "LENGTH('w) \<le> 32" by (auto simp: wf_config_def)
  from assms(2) have len: "length (elements s) = Capacity c" by (simp add: wf_state_def)
  from assms(2,4,7) obtain e' where e: "deref s (Some a) = Inr e'" "heap s ! a = Some e'"
      "unat (cardinality e') = unat b"
      "length (words e') = nwords (BitsetWidth c) (word_bits TYPE('w))"
      by (rule wf_slotD)
  from e(2) assms(8) have [simp]: "e' = e" by simp
  from e(3) have "cardinality e = b" by (simp add: tag_eq)
  then show ?thesis using m len assms(3-8) e l
    by (simp add: atomic_bitset_reset_def reset_loop.simps [of c b 0] elt_reset_def
          BitSetElement_reset_eq)
qed

lemma set_full:
  assumes "wf_config c TYPE('w::len)" "wf_state c (s :: 'w state)" 
    "relocate (BitsetWidth c) (word_bits TYPE('w)) pos = (b, b, i, off)"
    "unat b < Capacity c" "unat i < nwords (BitsetWidth c) (word_bits TYPE('w))"
    "unat off < LENGTH('w)"
    "elements s ! unat b = Some a" "heap s ! a = Some e"
  shows "atomic_bitset_set c spur pos s = Inr (success, put s a 
     (e\<lparr>words := (words e)[unat i := words e ! unat i OR 2 ^ unat off]\<rparr>))"
proof -
  from assms(1) have m: "0 < MaxTries c" and l: "LENGTH('w) \<le> 32" by (auto simp: wf_config_def)
  from assms(2) have len: "length (elements s) = Capacity c" by (simp add: wf_state_def)
  from assms(2,4,7) obtain e' where e: "deref s (Some a) = Inr e'" "heap s ! a = Some e'"
      "unat (cardinality e') = unat b"
      "length (words e') = nwords (BitsetWidth c) (word_bits TYPE('w))"
      by (rule wf_slotD)
  from e(2) assms(8) have [simp]: "e' = e" by simp
  from e(3) have "cardinality e = b" by (simp add: tag_eq)
  then show ?thesis using m len assms(3-8) e l
    by (simp add: atomic_bitset_set_def set_loop.simps [of c spur b 0] elt_set_def
          BitSetElement_set_eq)
qed

lemma set_empty:
  assumes "wf_config c TYPE('w::len)" "length (elements s) = Capacity c"
    "relocate (BitsetWidth c) (word_bits TYPE('w)) pos = (b, b, i, off)"
    "unat b < Capacity c" "unat i < nwords (BitsetWidth c) (word_bits TYPE('w))"
    "unat off < LENGTH('w)" "off \<le> word_bits TYPE('w) - 1"
    "elements s ! unat b = None"
  shows "atomic_bitset_set c spur pos (s :: 'w state) =
     (if spur 0 then Inl NullDeref
      else Inr (success,
        \<lparr>elements = (elements s)[unat b := Some (length (heap s))],
         heap = heap s @ [Some \<lparr>cardinality = b,
            words = (replicate (nwords (BitsetWidth c) (word_bits TYPE('w))) 0)
                      [unat i := 2 ^ unat off]\<rparr>]\<rparr>))"
proof -
  from assms(1) have m: "0 < MaxTries c" and l: "LENGTH('w) \<le> 32" by (auto simp: wf_config_def)
  have n: "BitSetElement_new (BitsetWidth c) b i off =
     Inr \<lparr>cardinality = b, words = (replicate (nwords (BitsetWidth c) (word_bits TYPE('w))) 0)
                      [unat i := (2 ^ unat off :: 'w word)]\<rparr>"
    using assms(5-7) l by (simp add: BitSetElement_new_def BitSetElement_set_eq)
  show ?thesis using m assms(2-4,8)
    by (simp add: atomic_bitset_set_def set_loop.simps [of c spur b 0] n new_elt_def
        compare_exchange_weak_def deref_def)
qed

lemma relocate_push:
  assumes "W \<le> 30" "unat b * 2 ^ W < 2 ^ 64"
  shows "relocate W wbits (push_bit W b) = (b, b, 0, 0)"
proof -
  have m: "(scast (2 ^ W - 1 :: cint) :: size_t) = mask W"
    using assms(1) by (intro bit_word_eqI) (auto simp: bit_simps simp flip: mask_eq_exp_minus_1)
  have "unat b < 2 ^ (64 - W)"
  proof (rule ccontr)
    assume "\<not> unat b < 2 ^ (64 - W)"
    then have "2 ^ (64 - W) * 2 ^ W \<le> unat b * (2 ^ W :: nat)" by simp
    moreover have "(2::nat) ^ (64 - W) * 2 ^ W = 2 ^ 64"
      using assms(1) by (simp flip: power_add)
    ultimately show False using assms(2) by simp
  qed
  then have "unat (take_bit (64 - W) b) = unat b"
    by (simp add: unsigned_take_bit_eq take_bit_nat_eq_self)
  then have t: "take_bit (64 - W) b = b"
    by (simp add: word_unat_eq_iff)
  have d: "drop_bit W (push_bit W b) = b"
  proof (rule bit_word_eqI)
    fix n assume "n < LENGTH(64)"
    have "bit b n = bit (take_bit (64 - W) b) n" by (simp only: t)
    then show "bit (drop_bit W (push_bit W b)) n = bit b n"
      by (auto simp: bit_simps)
  qed
  have z: "push_bit W b AND mask W = 0"
    by (rule bit_word_eqI) (auto simp: bit_simps)
  show ?thesis
    unfolding relocate_def Let_def d
    by (simp add: m) (simp add: z flip: push_bit_eq_mult)
qed

section \<open>The invariant and the effect of each operation\<close>

lemma bw_length:
  assumes "wf_state c (s :: 'w::len state)" "j < Capacity c" "bucket_words s j = Some ws"
  shows "length ws = nwords (BitsetWidth c) (word_bits TYPE('w))"
proof -
  from assms(3) obtain a where a: "elements s ! j = Some a"
    by (auto simp: bucket_words_def split: option.splits)
  with assms(1,2) obtain e where "heap s ! a = Some e"
    "length (words e) = nwords (BitsetWidth c) (word_bits TYPE('w))"
    by (rule wf_slotD)
  with a assms(3) show ?thesis by (simp add: bucket_words_def)
qed

lemma bw_put_same:
  assumes "wf_state c (s :: 'w::len state)" "j < Capacity c" "elements s ! j = Some a"
  shows "bucket_words (put s a e') j = Some (words e')"
proof -
  from assms obtain e where "a < length (heap s)" by (rule wf_slotD)
  with assms(3) show ?thesis by (simp add: bucket_words_def put_def)
qed

lemma bw_put_other:
  assumes "wf_state c (s :: 'w::len state)" "j < Capacity c" "elements s ! j = Some a"
    "k < Capacity c" "k \<noteq> j"
  shows "bucket_words (put s a e') k = bucket_words s k"
proof (cases "elements s ! k")
  case None
  then show ?thesis by (simp add: bucket_words_def put_def)
next
  case (Some a')
  from assms(1,2,3) obtain e where e: "heap s ! a = Some e" "unat (cardinality e) = j"
    by (rule wf_slotD)
  from assms(1,4) Some obtain e2 where e2: "heap s ! a' = Some e2" "unat (cardinality e2) = k"
    by (rule wf_slotD)
  from e e2 assms(5) have "a' \<noteq> a" by auto
  with Some show ?thesis by (simp add: bucket_words_def put_def)
qed

lemma wf_put:
  assumes "wf_state c (s :: 'w::len state)" "j < Capacity c" "elements s ! j = Some a"
    "unat (cardinality e') = j" "length (words e') = nwords (BitsetWidth c) (word_bits TYPE('w))"
  shows "wf_state c (put s a e')"
proof -
  from assms(1-3) obtain e where a: "a < length (heap s)" by (rule wf_slotD)
  have "slot_ok c (put s a e') k" if k: "k < Capacity c" for k
  proof (cases "elements s ! k")
    case None
    then show ?thesis by (simp add: slot_ok_def put_def)
  next
    case (Some a')
    with assms(1) k obtain e2 where e2: "a' < length (heap s)" "heap s ! a' = Some e2"
      "unat (cardinality e2) = k"
      "length (words e2) = nwords (BitsetWidth c) (word_bits TYPE('w))"
      by (rule wf_slotD)
    show ?thesis
    proof (cases "a' = a")
      case True
      from assms(1-3) obtain e where "heap s ! a = Some e" "unat (cardinality e) = j"
        by (rule wf_slotD)
      with True e2 have "k = j" by simp
      with True Some a assms(4,5) show ?thesis
        by (simp add: slot_ok_def put_def deref_def)
    next
      case False
      with Some e2 show ?thesis
        by (simp add: slot_ok_def put_def deref_def)
    qed
  qed
  with assms(1) show ?thesis by (simp add: wf_state_def put_def)
qed

lemma wf_install:
  assumes "wf_state c (s :: 'w::len state)" "j < Capacity c" "elements s ! j = None"
    "unat (cardinality e') = j" "length (words e') = nwords (BitsetWidth c) (word_bits TYPE('w))"
  defines "s' \<equiv> \<lparr>elements = (elements s)[j := Some (length (heap s))],
                  heap = heap s @ [Some e']\<rparr>"
  shows "wf_state c s'" "bucket_words s' j = Some (words e')"
    "\<And>k. k < Capacity c \<Longrightarrow> k \<noteq> j \<Longrightarrow> bucket_words s' k = bucket_words s k"
    "\<And>k a. k < Capacity c \<Longrightarrow> elements s ! k = Some a \<Longrightarrow> elements s' ! k = Some a"
proof -
  from assms(1) have len: "length (elements s) = Capacity c" by (simp add: wf_state_def)
  show "bucket_words s' j = Some (words e')"
    using len assms(2) by (simp add: s'_def bucket_words_def)
  show "elements s' ! k = Some a" if "k < Capacity c" "elements s ! k = Some a" for k a
    using that assms(3) len by (cases "k = j") (simp_all add: s'_def)
  show "bucket_words s' k = bucket_words s k" if k: "k < Capacity c" "k \<noteq> j" for k
  proof (cases "elements s ! k")
    case None
    with k show ?thesis by (simp add: s'_def bucket_words_def)
  next
    case (Some a')
    with assms(1) k(1) obtain e2 where "a' < length (heap s)" by (rule wf_slotD)
    with Some k show ?thesis by (simp add: s'_def bucket_words_def nth_append)
  qed
  have "slot_ok c s' k" if k: "k < Capacity c" for k
  proof (cases "k = j")
    case True
    with len assms(2,4,5) show ?thesis by (simp add: s'_def slot_ok_def deref_def)
  next
    case False
    show ?thesis
    proof (cases "elements s ! k")
      case None
      with False show ?thesis by (simp add: s'_def slot_ok_def)
    next
      case (Some a')
      with assms(1) k obtain e2 where "a' < length (heap s)" "heap s ! a' = Some e2"
        "unat (cardinality e2) = k"
        "length (words e2) = nwords (BitsetWidth c) (word_bits TYPE('w))"
        by (rule wf_slotD)
      with Some False show ?thesis by (simp add: s'_def slot_ok_def deref_def nth_append)
    qed
  qed
  with len show "wf_state c s'" by (simp add: wf_state_def s'_def)
qed

lemma set_view:
  assumes cfg: "wf_config c TYPE('w::len)" and wf: "wf_state c (s :: 'w state)"
    and rng: "in_range c pos"
    and r: "relocate (BitsetWidth c) (word_bits TYPE('w)) pos = (r0, b, i, off)"
  shows "(spur 0 \<and> elements s ! unat b = None \<and> atomic_bitset_set c spur pos s = Inl NullDeref) \<or>
     (\<not> (spur 0 \<and> elements s ! unat b = None) \<and>
      (\<exists>s' ws. atomic_bitset_set c spur pos s = Inr (success, s') \<and> wf_state c s' \<and>
        ws = (case bucket_words s (unat b) of
                None \<Rightarrow> replicate (nwords (BitsetWidth c) (word_bits TYPE('w))) 0
              | Some ws \<Rightarrow> ws) \<and>
        bucket_words s' (unat b) = Some (ws[unat i := ws ! unat i OR 2 ^ unat off]) \<and>
        (\<forall>k<Capacity c. k \<noteq> unat b \<longrightarrow> bucket_words s' k = bucket_words s k) \<and>
        (\<forall>k a. k < Capacity c \<longrightarrow> elements s ! k = Some a \<longrightarrow> elements s' ! k = Some a)))"
proof -
  from cfg rng obtain b' i' off' where
    r': "relocate (BitsetWidth c) (word_bits TYPE('w)) pos = (b', b', i', off')"
    and b': "unat b' < Capacity c" and i': "unat i' < nwords (BitsetWidth c) (word_bits TYPE('w))"
    and off': "unat off' < LENGTH('w)" "off' \<le> word_bits TYPE('w) - 1"
    by (rule locate)
  from r r' have eq: "r0 = b" "b' = b" "i' = i" "off' = off" by auto
  note r = r' [unfolded eq] and b = b' [unfolded eq] and i = i' [unfolded eq]
    and off = off' [unfolded eq]
  from wf have len: "length (elements s) = Capacity c" by (simp add: wf_state_def)
  show ?thesis
  proof (cases "elements s ! unat b")
    case None
    let ?e = "\<lparr>cardinality = b,
            words = (replicate (nwords (BitsetWidth c) (word_bits TYPE('w))) 0)
                      [unat i := (2 ^ unat off :: 'w word)]\<rparr>"
    let ?s = "\<lparr>elements = (elements s)[unat b := Some (length (heap s))],
         heap = heap s @ [Some ?e]\<rparr>"
    have s: "atomic_bitset_set c spur pos s = (if spur 0 then Inl NullDeref else Inr (success, ?s))"
      using cfg len r b i off None by (rule set_empty)
    have bw: "bucket_words s (unat b) = None" using None by (simp add: bucket_words_def)
    have t: "unat (cardinality ?e) = unat b" 
      "length (words ?e) = nwords (BitsetWidth c) (word_bits TYPE('w))" by simp_all
    note w = wf_install [OF wf b None t]
    show ?thesis
    proof (cases "spur 0")
      case True
      with None s show ?thesis by simp
    next
      case False
      have "bucket_words ?s (unat b) =
         Some ((replicate (nwords (BitsetWidth c) (word_bits TYPE('w))) 0)
                 [unat i := (replicate (nwords (BitsetWidth c) (word_bits TYPE('w))) 0) ! unat i
                     OR (2 ^ unat off :: 'w word)])"
        using w(2) i by simp
      with False s w(1,3,4) bw show ?thesis by simp
    qed
  next
    case (Some a)
    with wf b obtain e where e: "heap s ! a = Some e" "unat (cardinality e) = unat b"
      "length (words e) = nwords (BitsetWidth c) (word_bits TYPE('w))"
      by (rule wf_slotD)
    let ?e = "e\<lparr>words := (words e)[unat i := words e ! unat i OR 2 ^ unat off]\<rparr>"
    have s: "atomic_bitset_set c spur pos s = Inr (success, put s a ?e)"
      using cfg wf r b i off(1) Some e(1) by (rule set_full)
    have bw: "bucket_words s (unat b) = Some (words e)"
      using Some e by (simp add: bucket_words_def)
    have "wf_state c (put s a ?e)"
      using wf b Some by (rule wf_put) (simp_all add: e)
    moreover have "bucket_words (put s a ?e) (unat b) = Some (words ?e)"
      using wf b Some by (rule bw_put_same)
    moreover have "bucket_words (put s a ?e) k = bucket_words s k"
      if "k < Capacity c" "k \<noteq> unat b" for k
      using wf b Some that by (rule bw_put_other)
    moreover have "elements (put s a ?e) = elements s" by (simp add: put_def)
    ultimately show ?thesis using s bw Some by simp
  qed
qed

lemma reset_view:
  assumes cfg: "wf_config c TYPE('w::len)" and wf: "wf_state c (s :: 'w state)"
    and rng: "in_range c pos"
    and r: "relocate (BitsetWidth c) (word_bits TYPE('w)) pos = (r0, b, i, off)"
  shows "\<exists>s'. atomic_bitset_reset c pos s = Inr (success, s') \<and> wf_state c s' \<and>
        elements s' = elements s \<and>
        bucket_words s' (unat b) =
          map_option (\<lambda>ws. ws[unat i := ws ! unat i AND NOT (2 ^ unat off)])
            (bucket_words s (unat b)) \<and>
        (\<forall>k<Capacity c. k \<noteq> unat b \<longrightarrow> bucket_words s' k = bucket_words s k)"
proof -
  from cfg rng obtain b' i' off' where
    r': "relocate (BitsetWidth c) (word_bits TYPE('w)) pos = (b', b', i', off')"
    and b': "unat b' < Capacity c" and i': "unat i' < nwords (BitsetWidth c) (word_bits TYPE('w))"
    and off': "unat off' < LENGTH('w)"
    by (rule locate)
  from r r' have eq: "r0 = b" "b' = b" "i' = i" "off' = off" by auto
  note r = r' [unfolded eq] and b = b' [unfolded eq] and i = i' [unfolded eq]
    and off = off' [unfolded eq]
  from wf have len: "length (elements s) = Capacity c" by (simp add: wf_state_def)
  from cfg have m: "0 < MaxTries c" by (simp add: wf_config_def)
  show ?thesis
  proof (cases "elements s ! unat b")
    case None
    have "drop_bit (BitsetWidth c) pos = b" using r by (simp add: relocate_def Let_def)
    with m len b None have "atomic_bitset_reset c pos s = Inr (success, s)"
      by (intro reset_empty) simp_all
    moreover have "bucket_words s (unat b) = None" using None by (simp add: bucket_words_def)
    ultimately show ?thesis using wf by simp
  next
    case (Some a)
    with wf b obtain e where e: "heap s ! a = Some e" "unat (cardinality e) = unat b"
      "length (words e) = nwords (BitsetWidth c) (word_bits TYPE('w))"
      by (rule wf_slotD)
    let ?e = "e\<lparr>words := (words e)[unat i := words e ! unat i AND NOT (2 ^ unat off)]\<rparr>"
    have s: "atomic_bitset_reset c pos s = Inr (success, put s a ?e)"
      using cfg wf r b i off(1) Some e(1) by (rule reset_full)
    have bw: "bucket_words s (unat b) = Some (words e)"
      using Some e by (simp add: bucket_words_def)
    have "wf_state c (put s a ?e)"
      using wf b Some by (rule wf_put) (simp_all add: e)
    moreover have "bucket_words (put s a ?e) (unat b) = Some (words ?e)"
      using wf b Some by (rule bw_put_same)
    moreover have "bucket_words (put s a ?e) k = bucket_words s k"
      if "k < Capacity c" "k \<noteq> unat b" for k
      using wf b Some that by (rule bw_put_other)
    moreover have "elements (put s a ?e) = elements s" by (simp add: put_def)
    ultimately show ?thesis using s bw Some by simp
  qed
qed

lemma clear_words_eq:
  "length (words e) = n \<Longrightarrow> j \<le> n \<Longrightarrow>
   clear_words n j e = Inr (e\<lparr>words := take j (words e) @ replicate (n - j) 0\<rparr>)"
proof (induction n j e rule: clear_words.induct)
  case (1 n j e)
  show ?case
  proof (cases "j < n")
    case True
    have "take (Suc j) ((words e)[j := 0]) @ replicate (n - Suc j) 0 =
          take j (words e) @ replicate (n - j) 0"
      using True "1.prems"
      by (simp add: take_Suc_conv_app_nth replicate_app_Cons_same Suc_diff_Suc
          flip: replicate_Suc)
    with True "1.prems" "1.IH" show ?thesis
      by (simp add: clear_words.simps [of n j e])
  next
    case False
    with "1.prems" show ?thesis by (simp add: clear_words.simps [of n n e])
  qed
qed

lemma reset_all_loop_view:
  "wf_state c (s :: 'w::len state) \<Longrightarrow>
   \<exists>s'. reset_all_loop c i s = Inr s' \<and> wf_state c s' \<and> elements s' = elements s \<and>
     (\<forall>k<Capacity c. bucket_words s' k =
        (if i \<le> k
         then map_option (\<lambda>ws. replicate (nwords (BitsetWidth c) (word_bits TYPE('w))) 0)
                (bucket_words s k)
         else bucket_words s k))"
proof (induction c i s rule: reset_all_loop.induct)
  case (1 c i s)
  from "1.prems" have len: "length (elements s) = Capacity c" by (simp add: wf_state_def)
  show ?case
  proof (cases "i < Capacity c")
    case False
    with "1.prems" show ?thesis by (simp add: reset_all_loop.simps [of c i s])
  next
    case True
    show ?thesis
    proof (cases "elements s ! i")
      case None
      with True len "1.prems" "1.IH"(1)
      obtain s' where s': "reset_all_loop c (i + 1) s = Inr s'" "wf_state c s'"
        "elements s' = elements s"
        "\<forall>k<Capacity c. bucket_words s' k =
        (if i + 1 \<le> k
         then map_option (\<lambda>ws. replicate (nwords (BitsetWidth c) (word_bits TYPE('w))) 0)
                (bucket_words s k)
         else bucket_words s k)"
        by auto
      have bw: "bucket_words s i = None" using None by (simp add: bucket_words_def)
      have "bucket_words s' k =
        (if i \<le> k
         then map_option (\<lambda>ws. replicate (nwords (BitsetWidth c) (word_bits TYPE('w))) 0)
                (bucket_words s k)
         else bucket_words s k)" if "k < Capacity c" for k
        using s'(4) that bw by (cases "k = i") auto
      with s' True len None show ?thesis
        by (simp add: reset_all_loop.simps [of c i s])
    next
      case (Some a)
      with "1.prems" True obtain e where e: "deref s (Some a) = Inr e" "heap s ! a = Some e"
        "unat (cardinality e) = i"
        "length (words e) = nwords (BitsetWidth c) (word_bits TYPE('w))"
        by (rule wf_slotD)
      let ?n = "nwords (BitsetWidth c) (word_bits TYPE('w))"
      let ?e = "e\<lparr>words := replicate ?n 0\<rparr>"
      have cw: "clear_words ?n 0 e = Inr ?e"
        using e(4) by (simp add: clear_words_eq)
      have wf': "wf_state c (put s a ?e)"
        using "1.prems" True Some by (rule wf_put) (simp_all add: e)
      from "1.IH"(2) [OF True _ Some e(1) cw wf'] True len
      obtain s' where s': "reset_all_loop c (i + 1) (put s a ?e) = Inr s'" "wf_state c s'"
        "elements s' = elements (put s a ?e)"
        "\<forall>k<Capacity c. bucket_words s' k =
        (if i + 1 \<le> k
         then map_option (\<lambda>ws. replicate ?n 0) (bucket_words (put s a ?e) k)
         else bucket_words (put s a ?e) k)"
        by auto
      have bw: "bucket_words s i = Some (words e)" using Some e by (simp add: bucket_words_def)
      have same: "bucket_words (put s a ?e) i = Some (words ?e)"
        using "1.prems" True Some by (rule bw_put_same)
      have other: "bucket_words (put s a ?e) k = bucket_words s k"
        if "k < Capacity c" "k \<noteq> i" for k
        using "1.prems" True Some that by (rule bw_put_other)
      have "bucket_words s' k =
        (if i \<le> k then map_option (\<lambda>ws. replicate ?n 0) (bucket_words s k)
         else bucket_words s k)" if "k < Capacity c" for k
        using s'(4) that bw same other by (cases "k = i") auto
      moreover have "elements s' = elements s" using s'(3) by (simp add: put_def)
      ultimately show ?thesis using s'(1,2) True len Some e(1) cw
        by (simp add: reset_all_loop.simps [of c i s])
    qed
  qed
qed

lemma reset_all_view:
  assumes "wf_state c (s :: 'w::len state)"
  shows "\<exists>s'. atomic_bitset_reset_all c s = Inr (success, s') \<and> wf_state c s' \<and>
     elements s' = elements s \<and>
     (\<forall>k<Capacity c. bucket_words s' k =
         map_option (\<lambda>ws. replicate (nwords (BitsetWidth c) (word_bits TYPE('w))) 0)
                (bucket_words s k))"
  using reset_all_loop_view [OF assms, of 0]
  by (auto simp: atomic_bitset_reset_all_def)

lemma relocate_inj_cfg:
  assumes "wf_config c TYPE('w::len)"
    "relocate (BitsetWidth c) (word_bits TYPE('w)) p = relocate (BitsetWidth c) (word_bits TYPE('w)) q"
  shows "p = q"
proof -
  from assms(1) obtain k where k: "k \<le> BitsetWidth c" "word_bits TYPE('w) = 2 ^ k"
    by (rule wf_config_exp)
  from assms(1) have "BitsetWidth c \<le> 30" by (simp add: wf_config_def)
  then show ?thesis using k(1) assms(2) unfolding k(2) by (rule relocate_inj)
qed

lemma set_bit_at:
  assumes cfg: "wf_config c TYPE('w::len)" and wf: "wf_state c (s :: 'w state)"
    and rng: "in_range c pos" and s: "atomic_bitset_set c spur pos s = Inr (st, s')"
  shows "st = success" and "wf_state c s'"
    and "\<And>k a. k < Capacity c \<Longrightarrow> elements s ! k = Some a \<Longrightarrow> elements s' ! k = Some a"
    and "\<And>q. in_range c q \<Longrightarrow> bit_at c s' q = (q = pos \<or> bit_at c s q)"
proof -
  let ?n = "nwords (BitsetWidth c) (word_bits TYPE('w))"
  from cfg rng obtain b i off where
    r: "relocate (BitsetWidth c) (word_bits TYPE('w)) pos = (b, b, i, off)"
    and b: "unat b < Capacity c" and i: "unat i < ?n"
    and off: "unat off < LENGTH('w)"
    by (rule locate)
  define ws where "ws = (case bucket_words s (unat b) of None \<Rightarrow> replicate ?n 0 | Some ws \<Rightarrow> ws)"
  from set_view [OF cfg wf rng r, of spur] s
  have st: "st = success" and wf': "wf_state c s'"
    and new: "bucket_words s' (unat b) = Some (ws[unat i := ws ! unat i OR 2 ^ unat off])"
    and old: "\<And>k. k < Capacity c \<Longrightarrow> k \<noteq> unat b \<Longrightarrow> bucket_words s' k = bucket_words s k"
    and slots: "\<And>k a. k < Capacity c \<Longrightarrow> elements s ! k = Some a \<Longrightarrow> elements s' ! k = Some a"
    by (auto simp: ws_def)
  show "st = success" by (rule st)
  show "wf_state c s'" by (rule wf')
  show "elements s' ! k = Some a" if "k < Capacity c" "elements s ! k = Some a" for k a
    using that by (rule slots)
  have lws: "length ws = ?n"
    using bw_length [OF wf b] by (auto simp: ws_def split: option.splits)
  show "bit_at c s' q = (q = pos \<or> bit_at c s q)" if q: "in_range c q" for q
  proof -
    from cfg q obtain b2 i2 off2 where
      r2: "relocate (BitsetWidth c) (word_bits TYPE('w)) q = (b2, b2, i2, off2)"
      and b2: "unat b2 < Capacity c" and i2: "unat i2 < ?n"
      by (rule locate)
    have inj: "q = pos \<longleftrightarrow> b2 = b \<and> i2 = i \<and> off2 = off"
      using relocate_inj_cfg [OF cfg, of q pos] r r2 by auto
    show ?thesis
    proof (cases "b2 = b")
      case False
      then have "unat b2 \<noteq> unat b" by (simp add: word_unat_eq_iff)
      with old [OF b2] inj False show ?thesis by (simp add: bit_at_def r2)
    next
      case True
      have old_bit: "bit_at c s q = bit (ws ! unat i2) (unat off2)"
        using i2 by (simp add: bit_at_def r2 True ws_def split: option.splits)
      show ?thesis
      proof (cases "i2 = i")
        case False
        then have "unat i2 \<noteq> unat i" by (simp add: word_unat_eq_iff)
        with new inj False True old_bit show ?thesis by (simp add: bit_at_def r2)
      next
        case i2i: True
        have "off2 = off \<longleftrightarrow> unat off2 = unat off" by (simp add: word_unat_eq_iff)
        with new inj True i2i old_bit i lws off show ?thesis
          by (auto simp: bit_at_def r2 bit_or1)
      qed
    qed
  qed
qed

lemma set_returns:
  assumes cfg: "wf_config c TYPE('w::len)" and wf: "wf_state c (s :: 'w state)"
    and rng: "in_range c pos"
  shows "(spur 0 \<and> elements s ! unat (drop_bit (BitsetWidth c) pos) = None \<and>
          atomic_bitset_set c spur pos s = Inl NullDeref) \<or>
         (\<not> (spur 0 \<and> elements s ! unat (drop_bit (BitsetWidth c) pos) = None) \<and>
          (\<exists>s'. atomic_bitset_set c spur pos s = Inr (success, s')))"
proof -
  from cfg rng obtain b i off where
    r: "relocate (BitsetWidth c) (word_bits TYPE('w)) pos = (b, b, i, off)"
    by (rule locate)
  then have "drop_bit (BitsetWidth c) pos = b" by (simp add: relocate_def Let_def)
  with set_view [OF cfg wf rng r, of spur] show ?thesis by auto
qed

lemma reset_bit_at:
  assumes cfg: "wf_config c TYPE('w::len)" and wf: "wf_state c (s :: 'w state)"
    and rng: "in_range c pos"
  shows "\<exists>s'. atomic_bitset_reset c pos s = Inr (success, s') \<and> wf_state c s' \<and>
    elements s' = elements s \<and>
    (\<forall>q. in_range c q \<longrightarrow> bit_at c s' q = (q \<noteq> pos \<and> bit_at c s q))"
proof -
  let ?n = "nwords (BitsetWidth c) (word_bits TYPE('w))"
  from cfg rng obtain b i off where
    r: "relocate (BitsetWidth c) (word_bits TYPE('w)) pos = (b, b, i, off)"
    and b: "unat b < Capacity c" and i: "unat i < ?n"
    and off: "unat off < LENGTH('w)"
    by (rule locate)
  from reset_view [OF cfg wf rng r] obtain s' where
    s: "atomic_bitset_reset c pos s = Inr (success, s')" and wf': "wf_state c s'"
    and els: "elements s' = elements s"
    and new: "bucket_words s' (unat b) =
          map_option (\<lambda>ws. ws[unat i := ws ! unat i AND NOT (2 ^ unat off)])
            (bucket_words s (unat b))"
    and old: "\<And>k. k < Capacity c \<Longrightarrow> k \<noteq> unat b \<Longrightarrow> bucket_words s' k = bucket_words s k"
    by auto
  have "bit_at c s' q = (q \<noteq> pos \<and> bit_at c s q)" if q: "in_range c q" for q
  proof -
    from cfg q obtain b2 i2 off2 where
      r2: "relocate (BitsetWidth c) (word_bits TYPE('w)) q = (b2, b2, i2, off2)"
      and b2: "unat b2 < Capacity c" and i2: "unat i2 < ?n"
      by (rule locate)
    have inj: "q = pos \<longleftrightarrow> b2 = b \<and> i2 = i \<and> off2 = off"
      using relocate_inj_cfg [OF cfg, of q pos] r r2 by auto
    show ?thesis
    proof (cases "b2 = b")
      case False
      then have "unat b2 \<noteq> unat b" by (simp add: word_unat_eq_iff)
      with old [OF b2] inj False show ?thesis by (simp add: bit_at_def r2)
    next
      case True
      show ?thesis
      proof (cases "bucket_words s (unat b)")
        case None
        with new True show ?thesis by (simp add: bit_at_def r2)
      next
        case (Some ws)
        with wf b have lws: "length ws = ?n" by (rule bw_length)
        show ?thesis
        proof (cases "i2 = i")
          case False
          then have "unat i2 \<noteq> unat i" by (simp add: word_unat_eq_iff)
          with new inj False True Some show ?thesis by (simp add: bit_at_def r2)
        next
          case i2i: True
          have "off2 = off \<longleftrightarrow> unat off2 = unat off" by (simp add: word_unat_eq_iff)
          with new inj True i2i Some i lws show ?thesis
            by (auto simp: bit_at_def r2 bit_andnot1)
        qed
      qed
    qed
  qed
  with s wf' els show ?thesis by blast
qed

lemma reset_all_bit_at:
  assumes cfg: "wf_config c TYPE('w::len)" and wf: "wf_state c (s :: 'w state)"
  shows "\<exists>s'. atomic_bitset_reset_all c s = Inr (success, s') \<and> wf_state c s' \<and>
    elements s' = elements s \<and> (\<forall>q. in_range c q \<longrightarrow> \<not> bit_at c s' q)"
proof -
  let ?n = "nwords (BitsetWidth c) (word_bits TYPE('w))"
  from reset_all_view [OF wf] obtain s' where
    s: "atomic_bitset_reset_all c s = Inr (success, s')" and wf': "wf_state c s'"
    and els: "elements s' = elements s"
    and new: "\<And>k. k < Capacity c \<Longrightarrow> bucket_words s' k =
         map_option (\<lambda>ws. replicate ?n 0) (bucket_words s k)"
    by auto
  have "\<not> bit_at c s' q" if q: "in_range c q" for q
  proof -
    from cfg q obtain b2 i2 off2 where
      r2: "relocate (BitsetWidth c) (word_bits TYPE('w)) q = (b2, b2, i2, off2)"
      and b2: "unat b2 < Capacity c" and i2: "unat i2 < ?n"
      by (rule locate)
    from new [OF b2] i2 show ?thesis
      by (cases "bucket_words s (unat b2)") (simp_all add: bit_at_def r2)
  qed
  with s wf' els show ?thesis by blast
qed

lemma wf_init: "wf_state c (atomic_bitset c)"
  by (simp add: wf_state_def atomic_bitset_def slot_ok_def)

lemma apply_op_wf:
  assumes cfg: "wf_config c TYPE('w::len)" and wf: "wf_state c (s :: 'w state)"
    and rng: "op_in_range c x" and ap: "apply_op c x s = Inr (st, s')"
  shows "wf_state c s'"
    and "\<And>k a. k < Capacity c \<Longrightarrow> elements s ! k = Some a \<Longrightarrow> elements s' ! k = Some a"
    and "\<And>pos. keeps pos x \<Longrightarrow> in_range c pos \<Longrightarrow> bit_at c s pos \<Longrightarrow> bit_at c s' pos"
proof -
  have "wf_state c s' \<and>
    (\<forall>k a. k < Capacity c \<longrightarrow> elements s ! k = Some a \<longrightarrow> elements s' ! k = Some a) \<and>
    (\<forall>pos. keeps pos x \<longrightarrow> in_range c pos \<longrightarrow> bit_at c s pos \<longrightarrow> bit_at c s' pos)"
  proof (cases x)
    case (Set spur p)
    with rng ap have p: "in_range c p" and s: "atomic_bitset_set c spur p s = Inr (st, s')"
      by simp_all
    from set_bit_at [OF cfg wf p s] show ?thesis by simp
  next
    case (Reset p)
    with rng have p: "in_range c p" by simp
    from reset_bit_at [OF cfg wf p]
    obtain s2 where "atomic_bitset_reset c p s = Inr (success, s2)"
      "wf_state c s2" "elements s2 = elements s"
      "\<forall>q. in_range c q \<longrightarrow> bit_at c s2 q = (q \<noteq> p \<and> bit_at c s q)"
      by blast
    with ap Reset show ?thesis by auto
  next
    case ResetAll
    from reset_all_bit_at [OF cfg wf]
    obtain s2 where "atomic_bitset_reset_all c s = Inr (success, s2)"
      "wf_state c s2" "elements s2 = elements s"
      by blast
    with ap ResetAll show ?thesis by auto
  next
    case (Test p)
    with ap have "s' = s" by (auto split: sum.splits)
    with wf show ?thesis by simp
  qed
  then show "wf_state c s'"
    and "\<And>k a. k < Capacity c \<Longrightarrow> elements s ! k = Some a \<Longrightarrow> elements s' ! k = Some a"
    and "\<And>pos. keeps pos x \<Longrightarrow> in_range c pos \<Longrightarrow> bit_at c s pos \<Longrightarrow> bit_at c s' pos"
    by blast+
qed

lemma run_wf:
  assumes cfg: "wf_config c TYPE('w::len)"
  shows "wf_state c (s :: 'w state) \<Longrightarrow> list_all (op_in_range c) ops \<Longrightarrow> run c ops s = Inr s' \<Longrightarrow>
    wf_state c s' \<and>
    (\<forall>k a. k < Capacity c \<longrightarrow> elements s ! k = Some a \<longrightarrow> elements s' ! k = Some a) \<and>
    (\<forall>pos. list_all (keeps pos) ops \<longrightarrow> in_range c pos \<longrightarrow> bit_at c s pos \<longrightarrow> bit_at c s' pos)"
proof (induction ops arbitrary: s)
  case Nil
  then show ?case by simp
next
  case (Cons x xs)
  from Cons.prems(3) obtain st s1 where ap: "apply_op c x s = Inr (st, s1)"
    and rest: "run c xs s1 = Inr s'"
    by (auto split: sum.splits)
  from Cons.prems(2) have x: "op_in_range c x" and xs: "list_all (op_in_range c) xs"
    by simp_all
  note one = apply_op_wf [OF cfg Cons.prems(1) x ap]
  from Cons.IH [OF one(1) xs rest] one(2,3) show ?case by simp
qed

text \<open>
  Calls on valid positions always return, unless a compare-exchange fails spuriously: no
  sequence of them runs into undefined behaviour.
\<close>

lemma apply_op_returns:
  assumes cfg: "wf_config c TYPE('w::len)" and wf: "wf_state c (s :: 'w state)"
    and rng: "op_in_range c x" and st: "steady x"
  shows "\<exists>r s'. apply_op c x s = Inr (r, s')"
proof (cases x)
  case (Set spur p)
  with rng st have "in_range c p" "\<not> spur 0" by simp_all
  with set_returns [OF cfg wf, of p spur] Set show ?thesis by auto
next
  case (Reset p)
  with rng have "in_range c p" by simp
  with reset_bit_at [OF cfg wf, of p] Reset show ?thesis by auto
next
  case ResetAll
  with reset_all_bit_at [OF cfg wf] show ?thesis by auto
next
  case (Test p)
  with rng have "in_range c p" by simp
  with test_eq [OF cfg wf, of p] Test show ?thesis by simp
qed

lemma run_returns:
  assumes cfg: "wf_config c TYPE('w::len)"
  shows "wf_state c (s :: 'w state) \<Longrightarrow> list_all (op_in_range c) ops \<Longrightarrow>
    list_all steady ops \<Longrightarrow> \<exists>s'. run c ops s = Inr s'"
proof (induction ops arbitrary: s)
  case Nil
  then show ?case by simp
next
  case (Cons x xs)
  from Cons.prems have x: "op_in_range c x" "steady x"
    and xs: "list_all (op_in_range c) xs" "list_all steady xs"
    by simp_all
  from apply_op_returns [OF cfg Cons.prems(1) x]
  obtain r s1 where ap: "apply_op c x s = Inr (r, s1)" by blast
  from apply_op_wf(1) [OF cfg Cons.prems(1) x(1) ap] have "wf_state c s1" .
  from Cons.IH [OF this xs] ap show ?case by simp
qed

lemma reachable_wf:
  assumes "wf_config c TYPE('w::len)" "reachable c ops (s :: 'w state)"
  shows "wf_state c s"
  using run_wf [OF assms(1) wf_init, of ops s] assms(2) by (simp add: reachable_def)

text \<open>
  The bound of 32 bits on the word type in \<open>wf_config\<close> is needed: with a 64-bit word
  type the offset of a position can be 32 or more, and \<^verbatim>\<open>1 << offset\<close> is then a shift of an
  \<^verbatim>\<open>int\<close> by at least its width.
\<close>

lemma wide_word_offset_faults:
  "atomic_bitset_set \<lparr>Capacity = 4, BitsetWidth = 6, MaxTries = 32\<rparr> (\<lambda>t. False) 32
     (atomic_bitset \<lparr>Capacity = 4, BitsetWidth = 6, MaxTries = 32\<rparr> :: 64 state) =
   Inl ShiftTooWide"
  by code_simp

lemma wf_config_once: "wf_config c TYPE('w::len) \<Longrightarrow> wf_config (c\<lparr>MaxTries := 1\<rparr>) TYPE('w)"
  by (simp add: wf_config_def)

lemma wf_state_once: "wf_state (c\<lparr>MaxTries := 1\<rparr>) s = wf_state c s"
  by (simp add: wf_state_def slot_ok_def cong: option.case_cong sum.case_cong)

lemma once:
  assumes cfg: "wf_config c TYPE('w::len)" and wf: "wf_state c (s :: 'w state)"
    and rng: "in_range c pos"
  shows "atomic_bitset_set c spur pos s = atomic_bitset_set (c\<lparr>MaxTries := 1\<rparr>) spur pos s"
    and "atomic_bitset_reset c pos s = atomic_bitset_reset (c\<lparr>MaxTries := 1\<rparr>) pos s"
    and "atomic_bitset_test c pos s = atomic_bitset_test (c\<lparr>MaxTries := 1\<rparr>) pos s"
proof -
  let ?c = "c\<lparr>MaxTries := 1\<rparr>"
  from cfg have cfg1: "wf_config ?c TYPE('w)" by (rule wf_config_once)
  from wf have wf1: "wf_state ?c s" by (simp only: wf_state_once)
  from rng have rng1: "in_range ?c pos" by (simp add: in_range_def)
  from cfg rng obtain b i off where
    r: "relocate (BitsetWidth c) (word_bits TYPE('w)) pos = (b, b, i, off)"
    and b: "unat b < Capacity c" and i: "unat i < nwords (BitsetWidth c) (word_bits TYPE('w))"
    and off: "unat off < LENGTH('w)" "off \<le> word_bits TYPE('w) - 1"
    by (rule locate)
  from r have d: "drop_bit (BitsetWidth c) pos = b" by (simp add: relocate_def Let_def)
  from wf have len: "length (elements s) = Capacity c" by (simp add: wf_state_def)
  from cfg have m: "0 < MaxTries c" by (simp add: wf_config_def)
  have "bit_at ?c s pos = bit_at c s pos" by (simp add: bit_at_def)
  with test_eq [OF cfg wf rng] test_eq [OF cfg1 wf1 rng1]
  show "atomic_bitset_test c pos s = atomic_bitset_test ?c pos s" by simp
  show "atomic_bitset_set c spur pos s = atomic_bitset_set ?c spur pos s"
  proof (cases "elements s ! unat b")
    case None
    from set_empty [OF cfg len r b i off None, of spur]
      set_empty [of ?c s pos b i off spur] cfg1 len r b i off None
    show ?thesis by simp
  next
    case (Some a)
    with wf b obtain e where e: "heap s ! a = Some e" by (rule wf_slotD)
    from set_full [OF cfg wf r b i off(1) Some e, of spur]
      set_full [of ?c s pos b i off a e spur] cfg1 wf1 r b i off Some e
    show ?thesis by simp
  qed
  show "atomic_bitset_reset c pos s = atomic_bitset_reset ?c pos s"
  proof (cases "elements s ! unat b")
    case None
    from reset_empty [of c pos s] reset_empty [of ?c pos s] m len b d None
    show ?thesis by simp
  next
    case (Some a)
    with wf b obtain e where e: "heap s ! a = Some e" by (rule wf_slotD)
    from reset_full [OF cfg wf r b i off(1) Some e]
      reset_full [of ?c s pos b i off a e] cfg1 wf1 r b i off Some e
    show ?thesis by simp
  qed
qed

section \<open>The claims\<close>

text \<open>
  C1. For every valid position \<open>pos\<close>: if \<^verbatim>\<open>set(pos)\<close> returns \<open>success\<close> and the calls
  that follow (any calls of \<^verbatim>\<open>set\<close> and \<^verbatim>\<open>test\<close>, and calls of \<^verbatim>\<open>reset(q)\<close> for positions
  \<open>q\<close> other than \<open>pos\<close>, all on valid positions) contain neither \<^verbatim>\<open>reset(pos)\<close> nor the
  bulk \<^verbatim>\<open>reset()\<close>, then \<^verbatim>\<open>test(pos)\<close> returns \<open>yes\<close>.
\<close>

theorem set_then_test_yes:
  assumes "wf_config c TYPE('w::len)" and "reachable c ops0 (s :: 'w state)"
    and "in_range c pos"
    and "atomic_bitset_set c spur pos s = Inr (success, s1)"
    and "list_all (op_in_range c) ops" and "list_all (keeps pos) ops"
    and "run c ops s1 = Inr s2"
  shows "atomic_bitset_test c pos s2 = Inr yes"
proof -
  from assms(1,2) have wf: "wf_state c s" by (rule reachable_wf)
  note set = set_bit_at [OF assms(1) wf assms(3,4)]
  from set(4) [OF assms(3)] have "bit_at c s1 pos" by simp
  with run_wf [OF assms(1) set(2) assms(5,7)] assms(3,6)
  have "wf_state c s2" and "bit_at c s2 pos" by simp_all
  with test_eq [OF assms(1) _ assms(3), of s2] show ?thesis by simp
qed

theorem set_then_test_yes_witness:
  "wf_config \<lparr>Capacity = 4, BitsetWidth = 4, MaxTries = 32\<rparr> TYPE(8) \<and>
   reachable \<lparr>Capacity = 4, BitsetWidth = 4, MaxTries = 32\<rparr> []
     (atomic_bitset \<lparr>Capacity = 4, BitsetWidth = 4, MaxTries = 32\<rparr> :: 8 state) \<and>
   in_range \<lparr>Capacity = 4, BitsetWidth = 4, MaxTries = 32\<rparr> 5 \<and>
   atomic_bitset_set \<lparr>Capacity = 4, BitsetWidth = 4, MaxTries = 32\<rparr> (\<lambda>t. False) 5
     (atomic_bitset \<lparr>Capacity = 4, BitsetWidth = 4, MaxTries = 32\<rparr> :: 8 state) =
     Inr (success, \<lparr>elements = [Some 0, None, None, None],
                    heap = [Some \<lparr>cardinality = 0, words = [32, 0]\<rparr>]\<rparr>) \<and>
   list_all (op_in_range \<lparr>Capacity = 4, BitsetWidth = 4, MaxTries = 32\<rparr>)
     [Set (\<lambda>t. False) 6, Reset 6, Set (\<lambda>t. False) 20, Test 5] \<and>
   list_all (keeps 5) [Set (\<lambda>t. False) 6, Reset 6, Set (\<lambda>t. False) 20, Test 5] \<and>
   run \<lparr>Capacity = 4, BitsetWidth = 4, MaxTries = 32\<rparr>
     [Set (\<lambda>t. False) 6, Reset 6, Set (\<lambda>t. False) 20, Test 5]
     (\<lparr>elements = [Some 0, None, None, None],
       heap = [Some \<lparr>cardinality = 0, words = [32, 0]\<rparr>]\<rparr> :: 8 state) =
     Inr \<lparr>elements = [Some 0, Some 1, None, None],
          heap = [Some \<lparr>cardinality = 0, words = [32, 0]\<rparr>,
                  Some \<lparr>cardinality = 1, words = [16, 0]\<rparr>]\<rparr> \<and>
   atomic_bitset_test \<lparr>Capacity = 4, BitsetWidth = 4, MaxTries = 32\<rparr> 5
     (\<lparr>elements = [Some 0, Some 1, None, None],
          heap = [Some \<lparr>cardinality = 0, words = [32, 0]\<rparr>,
                  Some \<lparr>cardinality = 1, words = [16, 0]\<rparr>]\<rparr> :: 8 state) = Inr yes"
proof -
  let ?c = "\<lparr>Capacity = 4, BitsetWidth = 4, MaxTries = 32\<rparr>"
  let ?ops = "[Set (\<lambda>t. False) 6, Reset 6, Set (\<lambda>t. False) 20, Test 5]"
  let ?s1 = "\<lparr>elements = [Some 0, None, None, None],
              heap = [Some \<lparr>cardinality = 0, words = [32, 0]\<rparr>]\<rparr> :: 8 state"
  let ?s2 = "\<lparr>elements = [Some 0, Some 1, None, None],
          heap = [Some \<lparr>cardinality = 0, words = [32, 0]\<rparr>,
                  Some \<lparr>cardinality = 1, words = [16, 0]\<rparr>]\<rparr> :: 8 state"
  have h1: "wf_config ?c TYPE(8)" by (simp add: wf_config_def)
  have h2: "reachable ?c [] (atomic_bitset ?c :: 8 state)" by (simp add: reachable_def)
  have h3: "in_range ?c 5" by (simp add: in_range_def)
  have h4: "atomic_bitset_set ?c (\<lambda>t. False) 5 (atomic_bitset ?c :: 8 state) = Inr (success, ?s1)"
    by code_simp
  have h5: "list_all (op_in_range ?c) ?ops" by (simp add: in_range_def)
  have h6: "list_all (keeps 5) ?ops" by simp
  have h7: "run ?c ?ops ?s1 = Inr ?s2" by code_simp
  from set_then_test_yes [OF h1 h2 h3 h4 h5 h6 h7] h1 h2 h3 h4 h5 h6 h7
  show ?thesis by (intro conjI)
qed

text \<open>
  C2. For every valid position \<open>pos\<close>, \<^verbatim>\<open>reset(pos)\<close> returns, and \<^verbatim>\<open>test(pos)\<close> right
  after it returns \<open>no\<close>, whether the bucket of \<open>pos\<close> was never allocated or was
  allocated with the bit set. The witness has both cases: position 5 is set, the bucket
  of position 40 is empty.
\<close>

theorem reset_then_test_no:
  assumes "wf_config c TYPE('w::len)" and "reachable c ops0 (s :: 'w state)"
    and "in_range c pos"
  shows "\<exists>s'. atomic_bitset_reset c pos s = Inr (success, s') \<and>
              atomic_bitset_test c pos s' = Inr no"
proof -
  from assms(1,2) have wf: "wf_state c s" by (rule reachable_wf)
  from reset_bit_at [OF assms(1) wf assms(3)] assms(3)
  obtain s' where s': "atomic_bitset_reset c pos s = Inr (success, s')" "wf_state c s'"
    "\<not> bit_at c s' pos"
    by blast
  with test_eq [OF assms(1) s'(2) assms(3)] show ?thesis by simp
qed

theorem reset_then_test_no_witness:
  "wf_config \<lparr>Capacity = 4, BitsetWidth = 4, MaxTries = 32\<rparr> TYPE(8) \<and>
   reachable \<lparr>Capacity = 4, BitsetWidth = 4, MaxTries = 32\<rparr>
     [Set (\<lambda>t. False) 5, Set (\<lambda>t. False) 6]
     (\<lparr>elements = [Some 0, None, None, None],
       heap = [Some \<lparr>cardinality = 0, words = [96, 0]\<rparr>]\<rparr> :: 8 state) \<and>
   in_range \<lparr>Capacity = 4, BitsetWidth = 4, MaxTries = 32\<rparr> 5 \<and>
   in_range \<lparr>Capacity = 4, BitsetWidth = 4, MaxTries = 32\<rparr> 40 \<and>
   (\<exists>s'. atomic_bitset_reset \<lparr>Capacity = 4, BitsetWidth = 4, MaxTries = 32\<rparr> 5
      (\<lparr>elements = [Some 0, None, None, None],
        heap = [Some \<lparr>cardinality = 0, words = [96, 0]\<rparr>]\<rparr> :: 8 state) = Inr (success, s') \<and>
      atomic_bitset_test \<lparr>Capacity = 4, BitsetWidth = 4, MaxTries = 32\<rparr> 5 s' = Inr no) \<and>
   (\<exists>s'. atomic_bitset_reset \<lparr>Capacity = 4, BitsetWidth = 4, MaxTries = 32\<rparr> 40
      (\<lparr>elements = [Some 0, None, None, None],
        heap = [Some \<lparr>cardinality = 0, words = [96, 0]\<rparr>]\<rparr> :: 8 state) = Inr (success, s') \<and>
      atomic_bitset_test \<lparr>Capacity = 4, BitsetWidth = 4, MaxTries = 32\<rparr> 40 s' = Inr no)"
proof -
  let ?c = "\<lparr>Capacity = 4, BitsetWidth = 4, MaxTries = 32\<rparr>"
  let ?s = "\<lparr>elements = [Some 0, None, None, None],
             heap = [Some \<lparr>cardinality = 0, words = [96, 0]\<rparr>]\<rparr> :: 8 state"
  have h1: "wf_config ?c TYPE(8)" by (simp add: wf_config_def)
  have "run ?c [Set (\<lambda>t. False) 5, Set (\<lambda>t. False) 6] (atomic_bitset ?c) = Inr ?s"
    by code_simp
  then have h2: "reachable ?c [Set (\<lambda>t. False) 5, Set (\<lambda>t. False) 6] ?s"
    by (simp add: reachable_def in_range_def)
  have h3: "in_range ?c 5" by (simp add: in_range_def)
  have h4: "in_range ?c 40" by (simp add: in_range_def)
  from reset_then_test_no [OF h1 h2 h3] reset_then_test_no [OF h1 h2 h4] h1 h2 h3 h4
  show ?thesis by (intro conjI)
qed

text \<open>
  C3. The bulk \<^verbatim>\<open>reset()\<close> returns \<open>success\<close>, and after it \<^verbatim>\<open>test(pos)\<close> returns \<open>no\<close>
  for every valid position, set before or never touched.
\<close>

theorem bulk_reset_clears_all:
  assumes "wf_config c TYPE('w::len)" and "reachable c ops0 (s :: 'w state)"
  shows "\<exists>s'. atomic_bitset_reset_all c s = Inr (success, s') \<and>
              (\<forall>pos. in_range c pos \<longrightarrow> atomic_bitset_test c pos s' = Inr no)"
proof -
  from assms(1,2) have wf: "wf_state c s" by (rule reachable_wf)
  from reset_all_bit_at [OF assms(1) wf]
  obtain s' where s': "atomic_bitset_reset_all c s = Inr (success, s')" "wf_state c s'"
    "\<forall>q. in_range c q \<longrightarrow> \<not> bit_at c s' q"
    by blast
  have "atomic_bitset_test c pos s' = Inr no" if "in_range c pos" for pos
    using test_eq [OF assms(1) s'(2) that] s'(3) that by simp
  with s'(1) show ?thesis by blast
qed

theorem bulk_reset_clears_all_witness:
  "wf_config \<lparr>Capacity = 4, BitsetWidth = 4, MaxTries = 32\<rparr> TYPE(8) \<and>
   reachable \<lparr>Capacity = 4, BitsetWidth = 4, MaxTries = 32\<rparr>
     [Set (\<lambda>t. False) 5, Set (\<lambda>t. False) 6]
     (\<lparr>elements = [Some 0, None, None, None],
       heap = [Some \<lparr>cardinality = 0, words = [96, 0]\<rparr>]\<rparr> :: 8 state) \<and>
   (\<exists>s'. atomic_bitset_reset_all \<lparr>Capacity = 4, BitsetWidth = 4, MaxTries = 32\<rparr>
      (\<lparr>elements = [Some 0, None, None, None],
        heap = [Some \<lparr>cardinality = 0, words = [96, 0]\<rparr>]\<rparr> :: 8 state) = Inr (success, s') \<and>
      (\<forall>pos. in_range \<lparr>Capacity = 4, BitsetWidth = 4, MaxTries = 32\<rparr> pos \<longrightarrow>
         atomic_bitset_test \<lparr>Capacity = 4, BitsetWidth = 4, MaxTries = 32\<rparr> pos s' = Inr no))"
proof -
  let ?c = "\<lparr>Capacity = 4, BitsetWidth = 4, MaxTries = 32\<rparr>"
  let ?s = "\<lparr>elements = [Some 0, None, None, None],
             heap = [Some \<lparr>cardinality = 0, words = [96, 0]\<rparr>]\<rparr> :: 8 state"
  have h1: "wf_config ?c TYPE(8)" by (simp add: wf_config_def)
  have "run ?c [Set (\<lambda>t. False) 5, Set (\<lambda>t. False) 6] (atomic_bitset ?c) = Inr ?s"
    by code_simp
  then have h2: "reachable ?c [Set (\<lambda>t. False) 5, Set (\<lambda>t. False) 6] ?s"
    by (simp add: reachable_def in_range_def)
  from bulk_reset_clears_all [OF h1 h2] h1 h2
  show ?thesis by (intro conjI)
qed

text \<open>
  C4. In every state reached from the constructor by calls of \<^verbatim>\<open>set\<close>, \<^verbatim>\<open>reset(pos)\<close>,
  \<^verbatim>\<open>test\<close> and \<^verbatim>\<open>reset()\<close> on valid positions, a non-empty slot \<open>i\<close> of \<^verbatim>\<open>elements\<close> points
  to a live bucket object whose field \<^verbatim>\<open>cardinality\<close> is \<open>i\<close>.
\<close>

theorem tag_equals_slot_index:
  assumes "wf_config c TYPE('w::len)" and "reachable c ops (s :: 'w state)"
    and "i < Capacity c" and "elements s ! i = Some a"
  shows "\<exists>e. deref s (Some a) = Inr e \<and> unat (cardinality e) = i"
proof -
  from assms(1,2) have "wf_state c s" by (rule reachable_wf)
  then obtain e where "deref s (Some a) = Inr e" "unat (cardinality e) = i"
    using assms(3,4) by (rule wf_slotD)
  then show ?thesis by blast
qed

theorem tag_equals_slot_index_witness:
  "wf_config \<lparr>Capacity = 4, BitsetWidth = 4, MaxTries = 32\<rparr> TYPE(8) \<and>
   reachable \<lparr>Capacity = 4, BitsetWidth = 4, MaxTries = 32\<rparr>
     [Set (\<lambda>t. False) 40, Set (\<lambda>t. False) 5, Reset 40, ResetAll, Test 5, Set (\<lambda>t. False) 41]
     (\<lparr>elements = [Some 1, None, Some 0, None],
       heap = [Some \<lparr>cardinality = 2, words = [0, 2]\<rparr>,
               Some \<lparr>cardinality = 0, words = [0, 0]\<rparr>]\<rparr> :: 8 state) \<and>
   (2::nat) < Capacity \<lparr>Capacity = 4, BitsetWidth = 4, MaxTries = 32\<rparr> \<and>
   elements (\<lparr>elements = [Some 1, None, Some 0, None],
       heap = [Some \<lparr>cardinality = 2, words = [0, 2]\<rparr>,
               Some \<lparr>cardinality = 0, words = [0, 0]\<rparr>]\<rparr> :: 8 state) ! 2 = Some 0 \<and>
   (\<exists>e. deref (\<lparr>elements = [Some 1, None, Some 0, None],
       heap = [Some \<lparr>cardinality = 2, words = [0, 2]\<rparr>,
               Some \<lparr>cardinality = 0, words = [0, 0]\<rparr>]\<rparr> :: 8 state) (Some 0) = Inr e \<and>
        unat (cardinality e) = 2)"
proof -
  let ?c = "\<lparr>Capacity = 4, BitsetWidth = 4, MaxTries = 32\<rparr>"
  let ?ops = "[Set (\<lambda>t. False) 40, Set (\<lambda>t. False) 5, Reset 40, ResetAll, Test 5,
               Set (\<lambda>t. False) 41]"
  let ?s = "\<lparr>elements = [Some 1, None, Some 0, None],
       heap = [Some \<lparr>cardinality = 2, words = [0, 2]\<rparr>,
               Some \<lparr>cardinality = 0, words = [0, 0]\<rparr>]\<rparr> :: 8 state"
  have h1: "wf_config ?c TYPE(8)" by (simp add: wf_config_def)
  have "run ?c ?ops (atomic_bitset ?c) = Inr ?s"
    by code_simp
  then have h2: "reachable ?c ?ops ?s"
    by (simp add: reachable_def in_range_def)
  have h3: "(2::nat) < Capacity ?c" by simp
  have h4: "elements ?s ! 2 = Some 0" by simp
  from tag_equals_slot_index [OF h1 h2 h3 h4] h1 h2 h3 h4
  show ?thesis by (intro conjI)
qed

text \<open>
  C5. In a reachable state and for a valid position, the comparison
  \<^verbatim>\<open>elt->cardinality == cardinality\<close> never fails, so the retry branch of \<^verbatim>\<open>set\<close>,
  \<^verbatim>\<open>reset(pos)\<close> and \<^verbatim>\<open>test\<close> is not taken: each of them gives with any \<^verbatim>\<open>MaxTries\<close> the
  result it gives with \<^verbatim>\<open>MaxTries = 1\<close>. Hence \<^verbatim>\<open>set\<close> never returns \<open>failed\<close> (it returns
  \<open>success\<close> unless the compare-exchange fails spuriously, and then the code reads
  through the null pointer \<^verbatim>\<open>elt\<close>), \<^verbatim>\<open>reset(pos)\<close> returns \<open>success\<close>, and \<^verbatim>\<open>test(pos)\<close>
  returns \<open>yes\<close> or \<open>no\<close>, never \<open>not_found\<close>.
\<close>

theorem tag_mismatch_unreachable:
  assumes "wf_config c TYPE('w::len)" and "reachable c ops0 (s :: 'w state)"
    and "in_range c pos"
  shows "(\<forall>a. elements s ! unat (drop_bit (BitsetWidth c) pos) = Some a \<longrightarrow>
            (\<exists>e. deref s (Some a) = Inr e \<and> cardinality e = drop_bit (BitsetWidth c) pos)) \<and>
         (\<forall>spur. atomic_bitset_set c spur pos s =
                   atomic_bitset_set (c\<lparr>MaxTries := 1\<rparr>) spur pos s \<and>
                 (\<forall>st s'. atomic_bitset_set c spur pos s = Inr (st, s') \<longrightarrow> st = success) \<and>
                 (\<not> spur 0 \<longrightarrow> (\<exists>s'. atomic_bitset_set c spur pos s = Inr (success, s')))) \<and>
         atomic_bitset_reset c pos s = atomic_bitset_reset (c\<lparr>MaxTries := 1\<rparr>) pos s \<and>
         (\<exists>s'. atomic_bitset_reset c pos s = Inr (success, s')) \<and>
         atomic_bitset_test c pos s = atomic_bitset_test (c\<lparr>MaxTries := 1\<rparr>) pos s \<and>
         (atomic_bitset_test c pos s = Inr yes \<or> atomic_bitset_test c pos s = Inr no)"
proof -
  from assms(1,2) have wf: "wf_state c s" by (rule reachable_wf)
  let ?b = "drop_bit (BitsetWidth c) pos"
  have b: "unat ?b < Capacity c"
  proof -
    have "unat ?b = unat pos div 2 ^ BitsetWidth c"
      by (simp only: unat_drop_bit_eq) (simp add: drop_bit_eq_div)
    with assms(3) show ?thesis by (simp add: in_range_def div_less_iff_less_mult)
  qed
  have tag: "\<exists>e. deref s (Some a) = Inr e \<and> cardinality e = ?b"
    if "elements s ! unat ?b = Some a" for a
  proof -
    from wf b that obtain e where "deref s (Some a) = Inr e" "unat (cardinality e) = unat ?b"
      by (rule wf_slotD)
    then show ?thesis by (auto simp: word_unat_eq_iff)
  qed
  note o = once [OF assms(1) wf assms(3)]
  have set: "atomic_bitset_set c spur pos s = atomic_bitset_set (c\<lparr>MaxTries := 1\<rparr>) spur pos s \<and>
                 (\<forall>st s'. atomic_bitset_set c spur pos s = Inr (st, s') \<longrightarrow> st = success) \<and>
                 (\<not> spur 0 \<longrightarrow> (\<exists>s'. atomic_bitset_set c spur pos s = Inr (success, s')))"
    for spur
    using o(1) [of spur] set_returns [OF assms(1) wf assms(3), of spur] by auto
  from reset_bit_at [OF assms(1) wf assms(3)]
  have reset: "\<exists>s'. atomic_bitset_reset c pos s = Inr (success, s')" by blast
  have test: "atomic_bitset_test c pos s = Inr yes \<or> atomic_bitset_test c pos s = Inr no"
    using test_eq [OF assms(1) wf assms(3)] by simp
  from tag set o(2) reset o(3) test show ?thesis by blast
qed

theorem tag_mismatch_unreachable_witness:
  "wf_config \<lparr>Capacity = 4, BitsetWidth = 4, MaxTries = 32\<rparr> TYPE(8) \<and>
   reachable \<lparr>Capacity = 4, BitsetWidth = 4, MaxTries = 32\<rparr>
     [Set (\<lambda>t. False) 40, Set (\<lambda>t. False) 5]
     (\<lparr>elements = [Some 1, None, Some 0, None],
       heap = [Some \<lparr>cardinality = 2, words = [0, 1]\<rparr>,
               Some \<lparr>cardinality = 0, words = [32, 0]\<rparr>]\<rparr> :: 8 state) \<and>
   in_range \<lparr>Capacity = 4, BitsetWidth = 4, MaxTries = 32\<rparr> 47 \<and>
   elements (\<lparr>elements = [Some 1, None, Some 0, None],
       heap = [Some \<lparr>cardinality = 2, words = [0, 1]\<rparr>,
               Some \<lparr>cardinality = 0, words = [32, 0]\<rparr>]\<rparr> :: 8 state) !
     unat (drop_bit (BitsetWidth \<lparr>Capacity = 4, BitsetWidth = 4, MaxTries = 32\<rparr>)
             (47 :: size_t)) = Some 0 \<and>
   (\<exists>e. deref (\<lparr>elements = [Some 1, None, Some 0, None],
       heap = [Some \<lparr>cardinality = 2, words = [0, 1]\<rparr>,
               Some \<lparr>cardinality = 0, words = [32, 0]\<rparr>]\<rparr> :: 8 state) (Some 0) = Inr e \<and>
        cardinality e =
          drop_bit (BitsetWidth \<lparr>Capacity = 4, BitsetWidth = 4, MaxTries = 32\<rparr>) 47) \<and>
   atomic_bitset_set \<lparr>Capacity = 4, BitsetWidth = 4, MaxTries = 32\<rparr> (\<lambda>t. True) 47
      (\<lparr>elements = [Some 1, None, Some 0, None],
       heap = [Some \<lparr>cardinality = 2, words = [0, 1]\<rparr>,
               Some \<lparr>cardinality = 0, words = [32, 0]\<rparr>]\<rparr> :: 8 state) =
     Inr (success, \<lparr>elements = [Some 1, None, Some 0, None],
       heap = [Some \<lparr>cardinality = 2, words = [0, 129]\<rparr>,
               Some \<lparr>cardinality = 0, words = [32, 0]\<rparr>]\<rparr>) \<and>
   (\<exists>s'. atomic_bitset_set \<lparr>Capacity = 4, BitsetWidth = 4, MaxTries = 32\<rparr> (\<lambda>t. False) 47
      (\<lparr>elements = [Some 1, None, Some 0, None],
       heap = [Some \<lparr>cardinality = 2, words = [0, 1]\<rparr>,
               Some \<lparr>cardinality = 0, words = [32, 0]\<rparr>]\<rparr> :: 8 state) = Inr (success, s')) \<and>
   (\<exists>s'. atomic_bitset_reset \<lparr>Capacity = 4, BitsetWidth = 4, MaxTries = 32\<rparr> 47
      (\<lparr>elements = [Some 1, None, Some 0, None],
       heap = [Some \<lparr>cardinality = 2, words = [0, 1]\<rparr>,
               Some \<lparr>cardinality = 0, words = [32, 0]\<rparr>]\<rparr> :: 8 state) = Inr (success, s')) \<and>
   (atomic_bitset_test \<lparr>Capacity = 4, BitsetWidth = 4, MaxTries = 32\<rparr> 47
      (\<lparr>elements = [Some 1, None, Some 0, None],
       heap = [Some \<lparr>cardinality = 2, words = [0, 1]\<rparr>,
               Some \<lparr>cardinality = 0, words = [32, 0]\<rparr>]\<rparr> :: 8 state) = Inr yes \<or>
    atomic_bitset_test \<lparr>Capacity = 4, BitsetWidth = 4, MaxTries = 32\<rparr> 47
      (\<lparr>elements = [Some 1, None, Some 0, None],
       heap = [Some \<lparr>cardinality = 2, words = [0, 1]\<rparr>,
               Some \<lparr>cardinality = 0, words = [32, 0]\<rparr>]\<rparr> :: 8 state) = Inr no)"
proof -
  let ?c = "\<lparr>Capacity = 4, BitsetWidth = 4, MaxTries = 32\<rparr>"
  let ?ops = "[Set (\<lambda>t. False) 40, Set (\<lambda>t. False) 5]"
  let ?s = "\<lparr>elements = [Some 1, None, Some 0, None],
       heap = [Some \<lparr>cardinality = 2, words = [0, 1]\<rparr>,
               Some \<lparr>cardinality = 0, words = [32, 0]\<rparr>]\<rparr> :: 8 state"
  let ?s' = "\<lparr>elements = [Some 1, None, Some 0, None],
       heap = [Some \<lparr>cardinality = 2, words = [0, 129]\<rparr>,
               Some \<lparr>cardinality = 0, words = [32, 0]\<rparr>]\<rparr> :: 8 state"
  have h1: "wf_config ?c TYPE(8)" by (simp add: wf_config_def)
  have "run ?c ?ops (atomic_bitset ?c) = Inr ?s"
    by code_simp
  then have h2: "reachable ?c ?ops ?s"
    by (simp add: reachable_def in_range_def)
  have h3: "in_range ?c 47" by (simp add: in_range_def)
  note t = tag_mismatch_unreachable [OF h1 h2 h3]
  have h4: "elements ?s ! unat (drop_bit (BitsetWidth ?c) (47 :: size_t)) = Some 0"
    by (simp add: drop_bit_eq_div)
  from t [THEN conjunct1, THEN spec, THEN mp, OF h4]
  have t1: "\<exists>e. deref ?s (Some 0) = Inr e \<and> cardinality e = drop_bit (BitsetWidth ?c) 47" .
  note u = t [THEN conjunct2]
  note v = u [THEN conjunct1]
  have h5: "atomic_bitset_set ?c (\<lambda>t. True) 47 ?s = Inr (success, ?s')" by code_simp
  from v [THEN spec, of "\<lambda>t. False"]
  have t3: "\<exists>s'. atomic_bitset_set ?c (\<lambda>t. False) 47 ?s = Inr (success, s')"
    by (elim conjE) simp
  from u [THEN conjunct2]
  have t4: "\<exists>s'. atomic_bitset_reset ?c 47 ?s = Inr (success, s')"
    by (elim conjE)
  from u [THEN conjunct2]
  have t5: "atomic_bitset_test ?c 47 ?s = Inr yes \<or> atomic_bitset_test ?c 47 ?s = Inr no"
    by (elim conjE)
  from h1 h2 h3 h4 t1 h5 t3 t4 t5 show ?thesis by (intro conjI)
qed

text \<open>
  C6. For every bucket id \<open>b\<close> such that \<^verbatim>\<open>b << BitsetWidth\<close> is representable in the
  index type, the recomputation \<^verbatim>\<open>relocate(bucket << BitsetWidth, bucket, index, offset)\<close>
  of the retry branch yields the bucket id \<open>b\<close> again, together with word index 0 and bit
  offset 0: the retry addresses position \<open>b \<times> 2 ^ BitsetWidth\<close>, whatever position was
  asked for.
\<close>

theorem relocate_retry_same_bucket:
  assumes "W \<le> 30" and "unat b * 2 ^ W < 2 ^ 64"
  shows "relocate W wbits (push_bit W b) = (b, b, 0, 0)"
  using assms by (rule relocate_push)

theorem relocate_retry_same_bucket_witness:
  "(16::nat) \<le> 30 \<and> unat (3 :: size_t) * 2 ^ 16 < (2::nat) ^ 64 \<and>
   relocate 16 32 (push_bit 16 3) = (3, 3, 0, 0) \<and>
   relocate 16 32 (3 * 65536 + 77) = (3, 3, 2, 13)"
proof -
  have a: "(16::nat) \<le> 30" by simp
  have b: "unat (3 :: size_t) * 2 ^ 16 < (2::nat) ^ 64" by simp
  have "relocate 16 32 (3 * 65536 + 77) = (3, 3, 2, 13)"
    by (simp add: relocate_def)
  with a b relocate_retry_same_bucket [OF a b, of 32] show ?thesis by simp
qed

text \<open>
  C7. No sequence of calls of \<^verbatim>\<open>set\<close>, \<^verbatim>\<open>reset(pos)\<close>, \<^verbatim>\<open>test\<close> and \<^verbatim>\<open>reset()\<close> empties a
  non-empty slot or puts another object into it: a slot that holds the pointer \<open>a\<close> holds
  \<open>a\<close> ever after, and the object at \<open>a\<close> stays alive. So the pointer of a slot changes
  at most once, from null to one object.
\<close>

theorem slot_pointer_never_changes:
  assumes "wf_config c TYPE('w::len)" and "reachable c ops0 (s :: 'w state)"
    and "list_all (op_in_range c) ops" and "run c ops s = Inr s'"
    and "i < Capacity c" and "elements s ! i = Some a"
  shows "elements s' ! i = Some a \<and> (\<exists>e. deref s' (Some a) = Inr e)"
proof -
  from assms(1,2) have wf: "wf_state c s" by (rule reachable_wf)
  from run_wf [OF assms(1) wf assms(3,4)] assms(5,6)
  have wf': "wf_state c s'" and slot: "elements s' ! i = Some a" by simp_all
  from wf' assms(5) slot obtain e where "deref s' (Some a) = Inr e" by (rule wf_slotD)
  with slot show ?thesis by blast
qed

theorem slot_pointer_never_changes_witness:
  "wf_config \<lparr>Capacity = 4, BitsetWidth = 4, MaxTries = 32\<rparr> TYPE(8) \<and>
   reachable \<lparr>Capacity = 4, BitsetWidth = 4, MaxTries = 32\<rparr> [Set (\<lambda>t. False) 40]
     (\<lparr>elements = [None, None, Some 0, None],
       heap = [Some \<lparr>cardinality = 2, words = [0, 1]\<rparr>]\<rparr> :: 8 state) \<and>
   list_all (op_in_range \<lparr>Capacity = 4, BitsetWidth = 4, MaxTries = 32\<rparr>)
     [Reset 40, Set (\<lambda>t. False) 5, ResetAll, Test 40, Set (\<lambda>t. False) 41, Reset 63] \<and>
   run \<lparr>Capacity = 4, BitsetWidth = 4, MaxTries = 32\<rparr>
     [Reset 40, Set (\<lambda>t. False) 5, ResetAll, Test 40, Set (\<lambda>t. False) 41, Reset 63]
     (\<lparr>elements = [None, None, Some 0, None],
       heap = [Some \<lparr>cardinality = 2, words = [0, 1]\<rparr>]\<rparr> :: 8 state) =
     Inr \<lparr>elements = [Some 1, None, Some 0, None],
          heap = [Some \<lparr>cardinality = 2, words = [0, 2]\<rparr>,
                  Some \<lparr>cardinality = 0, words = [0, 0]\<rparr>]\<rparr> \<and>
   (2::nat) < Capacity \<lparr>Capacity = 4, BitsetWidth = 4, MaxTries = 32\<rparr> \<and>
   elements (\<lparr>elements = [None, None, Some 0, None],
       heap = [Some \<lparr>cardinality = 2, words = [0, 1]\<rparr>]\<rparr> :: 8 state) ! 2 = Some 0 \<and>
   elements (\<lparr>elements = [Some 1, None, Some 0, None],
          heap = [Some \<lparr>cardinality = 2, words = [0, 2]\<rparr>,
                  Some \<lparr>cardinality = 0, words = [0, 0]\<rparr>]\<rparr> :: 8 state) ! 2 = Some 0 \<and>
   (\<exists>e. deref (\<lparr>elements = [Some 1, None, Some 0, None],
          heap = [Some \<lparr>cardinality = 2, words = [0, 2]\<rparr>,
                  Some \<lparr>cardinality = 0, words = [0, 0]\<rparr>]\<rparr> :: 8 state) (Some 0) = Inr e)"
proof -
  let ?c = "\<lparr>Capacity = 4, BitsetWidth = 4, MaxTries = 32\<rparr>"
  let ?ops = "[Reset 40, Set (\<lambda>t. False) 5, ResetAll, Test 40, Set (\<lambda>t. False) 41, Reset 63]"
  let ?s = "\<lparr>elements = [None, None, Some 0, None],
       heap = [Some \<lparr>cardinality = 2, words = [0, 1]\<rparr>]\<rparr> :: 8 state"
  let ?s' = "\<lparr>elements = [Some 1, None, Some 0, None],
          heap = [Some \<lparr>cardinality = 2, words = [0, 2]\<rparr>,
                  Some \<lparr>cardinality = 0, words = [0, 0]\<rparr>]\<rparr> :: 8 state"
  have h1: "wf_config ?c TYPE(8)" by (simp add: wf_config_def)
  have "run ?c [Set (\<lambda>t. False) 40] (atomic_bitset ?c) = Inr ?s"
    by code_simp
  then have h2: "reachable ?c [Set (\<lambda>t. False) 40] ?s"
    by (simp add: reachable_def in_range_def)
  have h3: "list_all (op_in_range ?c) ?ops" by (simp add: in_range_def)
  have h4: "run ?c ?ops ?s = Inr ?s'" by code_simp
  have h5: "(2::nat) < Capacity ?c" by simp
  have h6: "elements ?s ! 2 = Some 0" by simp
  note t = slot_pointer_never_changes [OF h1 h2 h3 h4 h5 h6]
  from h1 h2 h3 h4 h5 h6 t [THEN conjunct1] t [THEN conjunct2]
  show ?thesis by (intro conjI)
qed

text \<open>
  C8. A call \<^verbatim>\<open>set(pos)\<close> that returns makes \<^verbatim>\<open>test(pos)\<close> return \<open>yes\<close> and changes the
  result of \<^verbatim>\<open>test(q)\<close> for no other valid position \<open>q\<close>. The witness is the instance with
  \<^verbatim>\<open>BitsetWidth = 4\<close> and an 8-bit word type: after \<^verbatim>\<open>set(5)\<close>, \<^verbatim>\<open>test(5)\<close> returns \<open>yes\<close>
  and \<^verbatim>\<open>test(6)\<close> returns \<open>no\<close>, and \<^verbatim>\<open>set(16)\<close> then leaves all 16 bits of bucket 0 as they
  were.
\<close>

theorem set_changes_one_bit:
  assumes "wf_config c TYPE('w::len)" and "reachable c ops0 (s :: 'w state)"
    and "in_range c pos" and "atomic_bitset_set c spur pos s = Inr (st, s')"
  shows "atomic_bitset_test c pos s' = Inr yes \<and>
         (\<forall>q. in_range c q \<and> q \<noteq> pos \<longrightarrow>
              atomic_bitset_test c q s' = atomic_bitset_test c q s)"
proof -
  from assms(1,2) have wf: "wf_state c s" by (rule reachable_wf)
  note set = set_bit_at [OF assms(1) wf assms(3,4)]
  have "atomic_bitset_test c pos s' = Inr yes"
    using test_eq [OF assms(1) set(2) assms(3)] set(4) [OF assms(3)] by simp
  moreover have "atomic_bitset_test c q s' = atomic_bitset_test c q s"
    if "in_range c q" "q \<noteq> pos" for q
    using test_eq [OF assms(1) set(2) that(1)] test_eq [OF assms(1) wf that(1)]
      set(4) [OF that(1)] that(2) by simp
  ultimately show ?thesis by blast
qed

theorem set_changes_one_bit_witness:
  "wf_config \<lparr>Capacity = 4, BitsetWidth = 4, MaxTries = 32\<rparr> TYPE(8) \<and>
   reachable \<lparr>Capacity = 4, BitsetWidth = 4, MaxTries = 32\<rparr> []
     (atomic_bitset \<lparr>Capacity = 4, BitsetWidth = 4, MaxTries = 32\<rparr> :: 8 state) \<and>
   in_range \<lparr>Capacity = 4, BitsetWidth = 4, MaxTries = 32\<rparr> 5 \<and>
   atomic_bitset_set \<lparr>Capacity = 4, BitsetWidth = 4, MaxTries = 32\<rparr> (\<lambda>t. False) 5
     (atomic_bitset \<lparr>Capacity = 4, BitsetWidth = 4, MaxTries = 32\<rparr> :: 8 state) =
     Inr (success, \<lparr>elements = [Some 0, None, None, None],
                    heap = [Some \<lparr>cardinality = 0, words = [32, 0]\<rparr>]\<rparr>) \<and>
   atomic_bitset_test \<lparr>Capacity = 4, BitsetWidth = 4, MaxTries = 32\<rparr> 5
     (\<lparr>elements = [Some 0, None, None, None],
       heap = [Some \<lparr>cardinality = 0, words = [32, 0]\<rparr>]\<rparr> :: 8 state) = Inr yes \<and>
   atomic_bitset_test \<lparr>Capacity = 4, BitsetWidth = 4, MaxTries = 32\<rparr> 6
     (\<lparr>elements = [Some 0, None, None, None],
       heap = [Some \<lparr>cardinality = 0, words = [32, 0]\<rparr>]\<rparr> :: 8 state) = Inr no \<and>
   reachable \<lparr>Capacity = 4, BitsetWidth = 4, MaxTries = 32\<rparr> [Set (\<lambda>t. False) 5]
     (\<lparr>elements = [Some 0, None, None, None],
       heap = [Some \<lparr>cardinality = 0, words = [32, 0]\<rparr>]\<rparr> :: 8 state) \<and>
   in_range \<lparr>Capacity = 4, BitsetWidth = 4, MaxTries = 32\<rparr> 16 \<and>
   atomic_bitset_set \<lparr>Capacity = 4, BitsetWidth = 4, MaxTries = 32\<rparr> (\<lambda>t. False) 16
     (\<lparr>elements = [Some 0, None, None, None],
       heap = [Some \<lparr>cardinality = 0, words = [32, 0]\<rparr>]\<rparr> :: 8 state) =
     Inr (success, \<lparr>elements = [Some 0, Some 1, None, None],
                    heap = [Some \<lparr>cardinality = 0, words = [32, 0]\<rparr>,
                            Some \<lparr>cardinality = 1, words = [1, 0]\<rparr>]\<rparr>) \<and>
   list_all
     (\<lambda>q. atomic_bitset_test \<lparr>Capacity = 4, BitsetWidth = 4, MaxTries = 32\<rparr> q
        (\<lparr>elements = [Some 0, Some 1, None, None],
          heap = [Some \<lparr>cardinality = 0, words = [32, 0]\<rparr>,
                  Some \<lparr>cardinality = 1, words = [1, 0]\<rparr>]\<rparr> :: 8 state) =
      atomic_bitset_test \<lparr>Capacity = 4, BitsetWidth = 4, MaxTries = 32\<rparr> q
        (\<lparr>elements = [Some 0, None, None, None],
          heap = [Some \<lparr>cardinality = 0, words = [32, 0]\<rparr>]\<rparr> :: 8 state))
     [0, 1, 2, 3, 4, 5, 6, 7, 8, 9, 10, 11, 12, 13, 14, 15]"
proof -
  let ?c = "\<lparr>Capacity = 4, BitsetWidth = 4, MaxTries = 32\<rparr>"
  let ?s0 = "atomic_bitset ?c :: 8 state"
  let ?s1 = "\<lparr>elements = [Some 0, None, None, None],
              heap = [Some \<lparr>cardinality = 0, words = [32, 0]\<rparr>]\<rparr> :: 8 state"
  let ?s2 = "\<lparr>elements = [Some 0, Some 1, None, None],
              heap = [Some \<lparr>cardinality = 0, words = [32, 0]\<rparr>,
                      Some \<lparr>cardinality = 1, words = [1, 0]\<rparr>]\<rparr> :: 8 state"
  have h1: "wf_config ?c TYPE(8)" by (simp add: wf_config_def)
  have h2: "reachable ?c [] ?s0" by (simp add: reachable_def)
  have h3: "in_range ?c 5" by (simp add: in_range_def)
  have h4: "atomic_bitset_set ?c (\<lambda>t. False) 5 ?s0 = Inr (success, ?s1)" by code_simp
  note a = set_changes_one_bit [OF h1 h2 h3 h4]
  have i6: "in_range ?c 6 \<and> (6 :: size_t) \<noteq> 5" by (simp add: in_range_def)
  have "atomic_bitset_test ?c 6 ?s0 = Inr no" by code_simp
  with a [THEN conjunct2, THEN spec, THEN mp, OF i6]
  have t6: "atomic_bitset_test ?c 6 ?s1 = Inr no" by simp
  from h4 have g2: "reachable ?c [Set (\<lambda>t. False) 5] ?s1"
    by (simp add: reachable_def in_range_def)
  have g3: "in_range ?c 16" by (simp add: in_range_def)
  have g4: "atomic_bitset_set ?c (\<lambda>t. False) 16 ?s1 = Inr (success, ?s2)" by code_simp
  note b = set_changes_one_bit [OF h1 g2 g3 g4]
  let ?bucket0 = "[0, 1, 2, 3, 4, 5, 6, 7, 8, 9, 10, 11, 12, 13, 14, 15] :: size_t list"
  have "list_all (\<lambda>q. in_range ?c q \<and> q \<noteq> 16) ?bucket0"
    by (simp add: in_range_def)
  then have t16: "list_all (\<lambda>q. atomic_bitset_test ?c q ?s2 = atomic_bitset_test ?c q ?s1)
                    ?bucket0"
    by (rule list.pred_mono_strong) (rule b [THEN conjunct2, THEN spec, THEN mp])
  from h1 h2 h3 h4 a [THEN conjunct1] t6 g2 g3 g4 t16
  show ?thesis by (intro conjI)
qed

text \<open>
  C9. For every valid position whose slot \<^verbatim>\<open>elements[pos >> BitsetWidth]\<close> is empty,
  \<^verbatim>\<open>reset(pos)\<close> returns \<open>success\<close>, not \<open>not_found\<close>, and leaves the whole structure as it
  was: nothing is allocated and nothing is written.
\<close>

theorem reset_empty_slot_is_noop:
  assumes "0 < MaxTries c" and "length (elements s) = Capacity c" and "in_range c pos"
    and "elements s ! unat (drop_bit (BitsetWidth c) pos) = None"
  shows "atomic_bitset_reset c pos s = Inr (success, s)"
proof -
  have "unat (drop_bit (BitsetWidth c) pos) = unat pos div 2 ^ BitsetWidth c"
    by (simp only: unat_drop_bit_eq) (simp add: drop_bit_eq_div)
  with assms(2,3) have lt: "unat (drop_bit (BitsetWidth c) pos) < length (elements s)"
    by (simp add: in_range_def div_less_iff_less_mult)
  show ?thesis by (rule reset_empty [OF assms(1) lt assms(4)])
qed

theorem reset_empty_slot_is_noop_witness:
  "atomic_bitset_reset \<lparr>Capacity = 1024, BitsetWidth = 16, MaxTries = 32\<rparr> 70000
     (\<lparr>elements = replicate 1024 None, heap = []\<rparr> :: 32 state) =
   Inr (success, \<lparr>elements = replicate 1024 None, heap = []\<rparr>)"
  using reset_empty_slot_is_noop [of "\<lparr>Capacity = 1024, BitsetWidth = 16, MaxTries = 32\<rparr>"
      "\<lparr>elements = replicate 1024 None, heap = []\<rparr> :: 32 state" 70000]
  by (simp add: in_range_def)

end
